theory Spec2Isabelle
  imports Main "HOL-Library.Word" "HOL-Library.Char_ord" "HOL-Library.List_Lexorder"
    "HOL-Library.Multiset" "HOL-Library.Sublist"
begin

chapter \<open>Model\<close>

section \<open>Query options (queryoptions.go)\<close>

text \<open>
  Go's \<^verbatim>\<open>int\<close> and \<^verbatim>\<open>uint\<close> are taken at their 64-bit width, \<^verbatim>\<open>uint8\<close> is an 8-bit
  word. Arithmetic on words wraps around as Go's does; \<open><\<close> and \<open>\<le>\<close> on words compare the
  unsigned values, \<open>sint\<close> reads a word as Go's signed \<^verbatim>\<open>int\<close>. Go strings are byte
  sequences: \<open>string\<close> is a list of 8-bit characters.
\<close>

type_synonym go_int = "64 word"
type_synonym go_uint = "64 word"
type_synonym go_uint8 = "8 word"

record TQueryOptions =
  ID :: go_int
  Descending :: bool
  Entity :: string
  GuiLang :: go_uint8
  Layout :: go_uint8
  LimitLength :: go_uint
  LimitStart :: go_uint
  Matching :: string
  QueryCount :: go_uint
  SortBy :: go_uint8
  Theme :: go_uint8
  VirtLib :: string

definition DecLimit :: "TQueryOptions \<Rightarrow> TQueryOptions" where
  "DecLimit qo =
     (if 0 < LimitStart qo then
        (if LimitStart qo \<le> LimitLength qo then qo\<lparr>LimitStart := 0\<rparr>
         else qo\<lparr>LimitStart := LimitStart qo - LimitLength qo\<rparr>)
      else qo)"

definition IncLimit :: "TQueryOptions \<Rightarrow> TQueryOptions" where
  "IncLimit qo = qo\<lparr>LimitStart := LimitStart qo + LimitLength qo\<rparr>"

subsection \<open>The request and strconv.Atoi\<close>

text \<open>
  A request is read only through \<^verbatim>\<open>FormValue\<close>: the first value stored under a name,
  or the empty string when the name is absent.
\<close>

type_synonym Request = "string \<Rightarrow> string list"

definition FormValue :: "Request \<Rightarrow> string \<Rightarrow> string" where
  "FormValue aRequest key = (case aRequest key of [] \<Rightarrow> [] | v # _ \<Rightarrow> v)"

datatype NumError = ErrSyntax | ErrRange

definition isDigit :: "char \<Rightarrow> bool" where
  "isDigit c = (48 \<le> (of_char c :: nat) \<and> (of_char c :: nat) \<le> 57)"

definition digitVal :: "char \<Rightarrow> nat" where
  "digitVal c = of_char c - 48"

text \<open>The value of a digit string, most significant digit first (\<open>n = n*10 + d\<close>).\<close>

fun parseDigits :: "nat \<Rightarrow> string \<Rightarrow> nat" where
  "parseDigits n [] = n"
| "parseDigits n (c # cs) = parseDigits (n * 10 + digitVal c) cs"

text \<open>
  \<^verbatim>\<open>strconv.ParseUint\<close> with base 10 and 64 bits. The bytes are read one by one and the
  first event decides: a byte that is no digit gives 0 and a syntax error; a digit at
  which the number no longer fits 64 bits gives the largest value and a range error, so
  that digits that overflow in front of a byte that is no digit give the range error.
\<close>

definition maxUint64 :: nat where "maxUint64 = 2 ^ 64 - 1"

fun parseUintLoop :: "nat \<Rightarrow> string \<Rightarrow> nat \<times> NumError option" where
  "parseUintLoop n [] = (n, None)"
| "parseUintLoop n (c # cs) =
     (if \<not> isDigit c then (0, Some ErrSyntax)
      else if maxUint64 div 10 + 1 \<le> n then (maxUint64, Some ErrRange)
      else (let n1 = n * 10 + digitVal c
            in if maxUint64 < n1 then (maxUint64, Some ErrRange)
               else parseUintLoop n1 cs))"

definition ParseUint :: "string \<Rightarrow> nat \<times> NumError option" where
  "ParseUint s = (if s = [] then (0, Some ErrSyntax) else parseUintLoop 0 s)"

text \<open>
  \<^verbatim>\<open>strconv.ParseInt\<close> with base 10 and 64 bits: the sign is taken off, \<^verbatim>\<open>ParseUint\<close>
  reads the rest, a syntax error is passed on with the value 0, and a number outside the
  range of \<^verbatim>\<open>int64\<close> (also the one \<^verbatim>\<open>ParseUint\<close> reports) gives the nearest bound and a
  range error.
\<close>

definition ParseInt :: "string \<Rightarrow> go_int \<times> NumError option" where
  "ParseInt s =
     (case s of
        [] \<Rightarrow> (0, Some ErrSyntax)
      | c # cs \<Rightarrow>
          (let neg = (c = CHR ''-'');
               body = (if c = CHR ''+'' \<or> c = CHR ''-'' then cs else s)
           in case ParseUint body of
                (un, err) \<Rightarrow>
                  if err = Some ErrSyntax then (0, Some ErrSyntax)
                  else if \<not> neg \<and> 2 ^ 63 \<le> un then (word_of_nat (2 ^ 63 - 1), Some ErrRange)
                  else if neg \<and> 2 ^ 63 < un then (- word_of_nat (2 ^ 63), Some ErrRange)
                  else (if neg then - word_of_nat un else word_of_nat un, None)))"

text \<open>
  \<^verbatim>\<open>strconv.Atoi\<close> with a 64-bit \<^verbatim>\<open>int\<close>. A string of 1 to 18 bytes takes the fast path:
  an optional sign, then digits only, or else the value 0 and a syntax error. Every other
  string goes to \<^verbatim>\<open>ParseInt\<close>.
\<close>

definition Atoi :: "string \<Rightarrow> go_int \<times> NumError option" where
  "Atoi s =
     (if 0 < length s \<and> length s < 19 then
        (let signed = (hd s = CHR ''-'' \<or> hd s = CHR ''+'');
             s1 = (if signed then tl s else s)
         in if signed \<and> length s1 < 1 then (0, Some ErrSyntax)
            else if \<not> list_all isDigit s1 then (0, Some ErrSyntax)
            else (let n = parseDigits 0 s1
                  in (if hd s = CHR ''-'' then - word_of_nat n else word_of_nat n, None)))
      else ParseInt s)"

subsection \<open>Update\<close>

definition qoSortUnsorted :: go_uint8 where "qoSortUnsorted = 0"
definition qoSortByAcquisition :: go_uint8 where "qoSortByAcquisition = 1"
definition qoSortByAuthor :: go_uint8 where "qoSortByAuthor = 2"
definition qoSortByLanguage :: go_uint8 where "qoSortByLanguage = 3"
definition qoSortByPublisher :: go_uint8 where "qoSortByPublisher = 4"
definition qoSortByRating :: go_uint8 where "qoSortByRating = 5"
definition qoSortBySeries :: go_uint8 where "qoSortBySeries = 6"
definition qoSortBySize :: go_uint8 where "qoSortBySize = 7"
definition qoSortByTags :: go_uint8 where "qoSortByTags = 8"
definition qoSortByTime :: go_uint8 where "qoSortByTime = 9"
definition qoSortByTitle :: go_uint8 where "qoSortByTitle = 10"

definition qoLangGerman :: go_uint8 where "qoLangGerman = 0"
definition qoLangEnglish :: go_uint8 where "qoLangEnglish = 1"
definition qoLayoutList :: go_uint8 where "qoLayoutList = 0"
definition qoLayoutGrid :: go_uint8 where "qoLayoutGrid = 1"
definition qoThemeLight :: go_uint8 where "qoThemeLight = 0"
definition qoThemeDark :: go_uint8 where "qoThemeDark = 1"

text \<open>
  \<^verbatim>\<open>Update\<close> is a sequence of eight blocks, one per form field, each changing the options
  in place. Each block is a function here and \<open>Update\<close> runs them in the source's order.
\<close>

definition upd_guilang :: "Request \<Rightarrow> TQueryOptions \<Rightarrow> TQueryOptions" where
  "upd_guilang aRequest qo =
     (let lang = FormValue aRequest ''guilang''
      in if 0 < length lang then qo\<lparr>GuiLang := (if ''en'' = lang then qoLangEnglish else 0)\<rparr>
         else qo\<lparr>GuiLang := qoLangGerman\<rparr>)"

definition upd_layout :: "Request \<Rightarrow> TQueryOptions \<Rightarrow> TQueryOptions" where
  "upd_layout aRequest qo =
     (let lt = FormValue aRequest ''layout''
      in if 0 < length lt then qo\<lparr>Layout := (if ''grid'' = lt then qoLayoutGrid else 0)\<rparr>
         else qo\<lparr>Layout := qoLayoutList\<rparr>)"

definition upd_limitlength :: "Request \<Rightarrow> TQueryOptions \<Rightarrow> TQueryOptions" where
  "upd_limitlength aRequest qo =
     (let fll = FormValue aRequest ''limitlength''
      in if 0 < length fll then
           (case Atoi fll of
              (ll, None) \<Rightarrow>
                (let limlen = ll
                 in if limlen \<noteq> LimitLength qo then (DecLimit qo)\<lparr>LimitLength := limlen\<rparr>
                    else qo)
            | (ll, Some err) \<Rightarrow> qo)
         else qo)"

definition upd_matching :: "Request \<Rightarrow> TQueryOptions \<Rightarrow> TQueryOptions" where
  "upd_matching aRequest qo =
     (let matching = FormValue aRequest ''matching''
      in if 0 < length matching then
           (if matching \<noteq> Matching qo
            then qo\<lparr>ID := 0, Matching := matching, LimitStart := 0, VirtLib := []\<rparr>
            else qo)
         else qo\<lparr>Entity := [], ID := 0, Matching := []\<rparr>)"

definition upd_order :: "Request \<Rightarrow> TQueryOptions \<Rightarrow> TQueryOptions" where
  "upd_order aRequest qo =
     (let fob = FormValue aRequest ''order''
      in if 0 < length fob then
           (let desc = (''descending'' = fob)
            in if desc \<noteq> Descending qo then qo\<lparr>Descending := desc, LimitStart := 0\<rparr>
               else qo)
         else qo\<lparr>Descending := False\<rparr>)"

definition sortby_of :: "string \<Rightarrow> go_uint8" where
  "sortby_of fsb =
     (if fsb = ''acquisition'' then qoSortByAcquisition
      else if fsb = ''author'' then qoSortByAuthor
      else if fsb = ''language'' then qoSortByLanguage
      else if fsb = ''publisher'' then qoSortByPublisher
      else if fsb = ''rating'' then qoSortByRating
      else if fsb = ''series'' then qoSortBySeries
      else if fsb = ''size'' then qoSortBySize
      else if fsb = ''tags'' then qoSortByTags
      else if fsb = ''time'' then qoSortByTime
      else if fsb = ''title'' then qoSortByTitle
      else if fsb = [] then qoSortUnsorted
      else 0)"

definition upd_sortby :: "Request \<Rightarrow> TQueryOptions \<Rightarrow> TQueryOptions" where
  "upd_sortby aRequest qo =
     (let fsb = FormValue aRequest ''sortby''
      in if 0 < length fsb then
           (let sb = sortby_of fsb
            in if sb \<noteq> SortBy qo then qo\<lparr>LimitStart := 0, SortBy := sb\<rparr> else qo)
         else qo\<lparr>SortBy := qoSortByAcquisition\<rparr>)"

definition upd_theme :: "Request \<Rightarrow> TQueryOptions \<Rightarrow> TQueryOptions" where
  "upd_theme aRequest qo =
     (let theme = FormValue aRequest ''theme''
      in if 0 < length theme then qo\<lparr>Theme := (if ''dark'' = theme then qoThemeDark else 0)\<rparr>
         else qo\<lparr>Theme := qoThemeLight\<rparr>)"

text \<open>
  \<^verbatim>\<open>GetVirtLibList\<close> is not part of the sources at hand. It is a parameter: \<open>None\<close> when it
  returns an error, otherwise the list it returns, as a map from a library's name to the
  \<^verbatim>\<open>Def\<close> field of its entry.
\<close>

type_synonym VirtLibList = "(string \<rightharpoonup> string) option"

definition upd_virtlib :: "VirtLibList \<Rightarrow> Request \<Rightarrow> TQueryOptions \<Rightarrow> TQueryOptions" where
  "upd_virtlib GetVirtLibList aRequest qo =
     (let vl = FormValue aRequest ''virtlib''
      in if 0 < length vl then
           (if vl \<noteq> VirtLib qo then
              (let qo1 = (if ''-'' = vl then qo\<lparr>VirtLib := []\<rparr> else qo\<lparr>VirtLib := vl\<rparr>);
                   qo2 = (if [] \<noteq> vl then
                            (case GetVirtLibList of
                               Some vlList \<Rightarrow>
                                 (case vlList vl of
                                    Some vldDef \<Rightarrow> qo1\<lparr>Matching := vldDef\<rparr>
                                  | None \<Rightarrow> qo1)
                             | None \<Rightarrow> qo1)
                          else qo1)
               in qo2\<lparr>Entity := [], ID := 0, LimitStart := 0\<rparr>)
            else qo)
         else qo\<lparr>VirtLib := []\<rparr>)"

definition Update :: "VirtLibList \<Rightarrow> Request \<Rightarrow> TQueryOptions \<Rightarrow> TQueryOptions" where
  "Update GetVirtLibList aRequest qo =
     upd_virtlib GetVirtLibList aRequest
       (upd_theme aRequest
         (upd_sortby aRequest
           (upd_order aRequest
             (upd_matching aRequest
               (upd_limitlength aRequest
                 (upd_layout aRequest
                   (upd_guilang aRequest qo)))))))"

text \<open>
  \<open>Update\<close> with its ``matching'' block left out, to state what that block does not
  touch.
\<close>

definition Update_without_matching ::
  "VirtLibList \<Rightarrow> Request \<Rightarrow> TQueryOptions \<Rightarrow> TQueryOptions" where
  "Update_without_matching GetVirtLibList aRequest qo =
     upd_virtlib GetVirtLibList aRequest
       (upd_theme aRequest
         (upd_sortby aRequest
           (upd_order aRequest
             (upd_limitlength aRequest
               (upd_layout aRequest
                 (upd_guilang aRequest qo))))))"

subsection \<open>Sample requests and options\<close>

definition req_empty :: Request where
  "req_empty = (\<lambda>k. [])"

definition req_matching_foo :: Request where
  "req_matching_foo = (\<lambda>k. if k = ''matching'' then [''foo''] else [])"

definition req_matching_padded :: Request where
  "req_matching_padded = (\<lambda>k. if k = ''matching'' then ['' a''] else [])"

text \<open>
  A request that selects the virtual library ``lib1'' and brings nothing else, and a list
  of virtual libraries in which ``lib1'' is defined by a search for a series.
\<close>

definition req_virtlib_lib1 :: Request where
  "req_virtlib_lib1 = (\<lambda>k. if k = ''virtlib'' then [''lib1''] else [])"

definition vl_lib1 :: VirtLibList where
  "vl_lib1 = Some [''lib1'' \<mapsto> ''series:Dune'']"

definition qo_author_page2 :: TQueryOptions where
  "qo_author_page2 = \<lparr>ID = 5, Descending = False, Entity = ''author'', GuiLang = 0, Layout = 0,
     LimitLength = 24, LimitStart = 24, Matching = [], QueryCount = 0,
     SortBy = 1, Theme = 0, VirtLib = []\<rparr>"

section \<open>The part of Go's library that the program calls\<close>

text \<open>
  Go's library is not part of the repository. The functions below follow its sources for
  what this program calls: \<^verbatim>\<open>fmt.Sprintf\<close> and \<^verbatim>\<open>fmt.Sscanf\<close> with formats made of
  literal text and the plain verbs \<^verbatim>\<open>%d\<close>, \<^verbatim>\<open>%t\<close>, \<^verbatim>\<open>%q\<close>, \<^verbatim>\<open>%s\<close>, \<^verbatim>\<open>%v\<close> (no
  flags, width, precision, argument index or white space in the format),
  \<^verbatim>\<open>strconv.Quote\<close>, \<^verbatim>\<open>strconv.Unquote\<close>, \<^verbatim>\<open>strings.TrimSpace\<close> and the UTF-8
  functions under them. A rune is a natural number.

  What the build adds to the sources at hand is one parameter \<open>env\<close>. Its field
  \<open>unicode_IsPrint\<close> is Go's table \<^verbatim>\<open>unicode.IsPrint\<close> for the runes above U+00FF
  (below, the function is written out). Its field \<open>TID_type\<close> is the name \<^verbatim>\<open>reflect\<close>
  gives the type \<^verbatim>\<open>TID\<close>, whose declaration is not among the sources; the text asks only
  that it is an integer that \<^verbatim>\<open>%d\<close> prints (\<open>''int''\<close> for an alias of \<^verbatim>\<open>int\<close>).
\<close>

record environment =
  unicode_IsPrint :: "nat \<Rightarrow> bool"
  TID_type :: string

definition chr_newline :: char where "chr_newline = CHR 0x0A"
definition chr_backslash :: char where "chr_backslash = CHR 0x5C"
definition chr_dquote :: char where "chr_dquote = CHR 0x22"
definition chr_backquote :: char where "chr_backquote = CHR 0x60"
definition chr_tab :: char where "chr_tab = CHR 0x09"

subsection \<open>Decimal numbers\<close>

definition digitChar :: "nat \<Rightarrow> char" where
  "digitChar d = ''0123456789'' ! d"

function formatNat :: "nat \<Rightarrow> string" where
  "formatNat n = (if n < 10 then [digitChar n] else formatNat (n div 10) @ [digitChar (n mod 10)])"
  by pat_completeness auto
termination
  by (relation "measure id") auto

definition formatInt :: "int \<Rightarrow> string" where
  "formatInt i = (if i < 0 then CHR ''-'' # formatNat (nat (- i)) else formatNat (nat i))"

subsection \<open>UTF-8\<close>

definition byte :: "char \<Rightarrow> nat" where
  "byte c = of_char c"

definition RuneError :: nat where "RuneError = 0xFFFD"
definition RuneSelf :: nat where "RuneSelf = 0x80"

definition isCont :: "nat \<Rightarrow> bool" where
  "isCont b = (0x80 \<le> b \<and> b \<le> 0xBF)"

text \<open>
  \<^verbatim>\<open>utf8.DecodeRuneInString\<close>: the first rune and its width in bytes; \<open>(RuneError, 1)\<close>
  for a byte that starts no valid encoding, \<open>(RuneError, 0)\<close> for the empty string.
\<close>

definition DecodeRuneInString :: "string \<Rightarrow> nat \<times> nat" where
  "DecodeRuneInString s =
     (case s of
        [] \<Rightarrow> (RuneError, 0)
      | c0 # cs \<Rightarrow>
          (let b0 = byte c0
           in if b0 < 0x80 then (b0, 1)
              else if 0xC2 \<le> b0 \<and> b0 \<le> 0xDF then
                (case cs of
                   c1 # cs1 \<Rightarrow>
                     if isCont (byte c1) then ((b0 mod 32) * 64 + byte c1 mod 64, 2)
                     else (RuneError, 1)
                 | [] \<Rightarrow> (RuneError, 1))
              else if 0xE0 \<le> b0 \<and> b0 \<le> 0xEF then
                (case cs of
                   c1 # c2 # cs2 \<Rightarrow>
                     if (if b0 = 0xE0 then 0xA0 else 0x80) \<le> byte c1
                        \<and> byte c1 \<le> (if b0 = 0xED then 0x9F else 0xBF) \<and> isCont (byte c2)
                     then ((b0 mod 16) * 4096 + (byte c1 mod 64) * 64 + byte c2 mod 64, 3)
                     else (RuneError, 1)
                 | _ \<Rightarrow> (RuneError, 1))
              else if 0xF0 \<le> b0 \<and> b0 \<le> 0xF4 then
                (case cs of
                   c1 # c2 # c3 # cs3 \<Rightarrow>
                     if (if b0 = 0xF0 then 0x90 else 0x80) \<le> byte c1
                        \<and> byte c1 \<le> (if b0 = 0xF4 then 0x8F else 0xBF)
                        \<and> isCont (byte c2) \<and> isCont (byte c3)
                     then ((b0 mod 8) * 262144 + (byte c1 mod 64) * 4096
                           + (byte c2 mod 64) * 64 + byte c3 mod 64, 4)
                     else (RuneError, 1)
                 | _ \<Rightarrow> (RuneError, 1))
              else (RuneError, 1)))"

definition ValidRune :: "nat \<Rightarrow> bool" where
  "ValidRune r = (r < 0xD800 \<or> (0xDFFF < r \<and> r \<le> 0x10FFFF))"

text \<open>\<^verbatim>\<open>utf8.AppendRune\<close>: the encoding of a rune, that of \<open>RuneError\<close> for an invalid one.\<close>

definition AppendRune :: "nat \<Rightarrow> string" where
  "AppendRune r =
     (if r \<le> 0x7F then [char_of r]
      else if r \<le> 0x7FF then [char_of (0xC0 + r div 64), char_of (0x80 + r mod 64)]
      else if \<not> ValidRune r then [CHR 0xEF, CHR 0xBF, CHR 0xBD]
      else if r \<le> 0xFFFF then
        [char_of (0xE0 + r div 4096), char_of (0x80 + (r div 64) mod 64), char_of (0x80 + r mod 64)]
      else
        [char_of (0xF0 + r div 262144), char_of (0x80 + (r div 4096) mod 64),
         char_of (0x80 + (r div 64) mod 64), char_of (0x80 + r mod 64)])"

fun ValidString :: "string \<Rightarrow> bool" where
  "ValidString [] = True"
| "ValidString (c # cs) =
     (case DecodeRuneInString (c # cs) of
        (r, width) \<Rightarrow>
          if r = RuneError \<and> width = 1 then False else ValidString (drop (width - 1) cs))"

text \<open>
  \<^verbatim>\<open>utf8.DecodeLastRuneInString\<close>: the search for the start of the last rune goes back at
  most four bytes.
\<close>

definition RuneStart :: "nat \<Rightarrow> bool" where
  "RuneStart b = (b div 64 \<noteq> 2)"

function lastRuneStart :: "string \<Rightarrow> int \<Rightarrow> int \<Rightarrow> int" where
  "lastRuneStart s start lim =
     (if lim \<le> start then
        (if RuneStart (byte (s ! nat start)) then start else lastRuneStart s (start - 1) lim)
      else start)"
  by pat_completeness auto
termination
  by (relation "measure (\<lambda>(s, start, lim). nat (start - lim + 1))") auto

definition DecodeLastRuneInString :: "string \<Rightarrow> nat \<times> nat" where
  "DecodeLastRuneInString s =
     (let n = int (length s)
      in if n = 0 then (RuneError, 0)
         else (let r = byte (s ! nat (n - 1))
               in if r < RuneSelf then (r, 1)
                  else (let lim = (if n - 4 < 0 then 0 else n - 4);
                            start0 = lastRuneStart s (n - 2) lim;
                            start = (if start0 < 0 then 0 else start0)
                        in case DecodeRuneInString (drop (nat start) s) of
                             (r, width) \<Rightarrow>
                               if start + int width \<noteq> n then (RuneError, 1) else (r, width))))"

subsection \<open>unicode.IsSpace, unicode.IsPrint, strings.TrimSpace\<close>

text \<open>White space as \<^verbatim>\<open>unicode.IsSpace\<close> and the scanner of \<^verbatim>\<open>fmt\<close> both define it.\<close>

definition IsSpace :: "nat \<Rightarrow> bool" where
  "IsSpace r =
     ((9 \<le> r \<and> r \<le> 13) \<or> r = 0x20 \<or> r = 0x85 \<or> r = 0xA0 \<or> r = 0x1680
      \<or> (0x2000 \<le> r \<and> r \<le> 0x200A) \<or> r = 0x2028 \<or> r = 0x2029 \<or> r = 0x202F
      \<or> r = 0x205F \<or> r = 0x3000)"

definition IsPrint :: "environment \<Rightarrow> nat \<Rightarrow> bool" where
  "IsPrint env r =
     (if r \<le> 0xFF then
        (if 0x20 \<le> r \<and> r \<le> 0x7E then True
         else if 0xA1 \<le> r then r \<noteq> 0xAD
         else False)
      else unicode_IsPrint env r)"

fun TrimLeftFunc_IsSpace :: "string \<Rightarrow> string" where
  "TrimLeftFunc_IsSpace [] = []"
| "TrimLeftFunc_IsSpace (c # cs) =
     (case DecodeRuneInString (c # cs) of
        (r, width) \<Rightarrow>
          if IsSpace r then TrimLeftFunc_IsSpace (drop (width - 1) cs) else c # cs)"

function TrimRightFunc_IsSpace :: "string \<Rightarrow> string" where
  "TrimRightFunc_IsSpace s =
     (if s = [] then []
      else (case DecodeLastRuneInString s of
              (r, width) \<Rightarrow>
                if IsSpace r
                then TrimRightFunc_IsSpace (take (length (butlast s) - (width - 1)) (butlast s))
                else s))"
  by pat_completeness auto
termination
  by (relation "measure length") (auto simp: less_Suc_eq_le)

definition TrimFunc_IsSpace :: "string \<Rightarrow> string" where
  "TrimFunc_IsSpace s = TrimRightFunc_IsSpace (TrimLeftFunc_IsSpace s)"

definition asciiSpace :: "char \<Rightarrow> bool" where
  "asciiSpace c = (c = CHR 0x09 \<or> c = CHR 0x0A \<or> c = CHR 0x0B \<or> c = CHR 0x0C
                   \<or> c = CHR 0x0D \<or> c = CHR '' '')"

text \<open>
  \<^verbatim>\<open>strings.TrimSpace\<close>: ASCII white space is skipped byte by byte from the start and
  then from the end; at the first byte above 0x7F the rest is left to the functions that
  read runes.
\<close>

function trimStop :: "string \<Rightarrow> string" where
  "trimStop s =
     (if s = [] then []
      else if RuneSelf \<le> byte (last s) then TrimRightFunc_IsSpace s
      else if asciiSpace (last s) then trimStop (butlast s)
      else s)"
  by pat_completeness auto
termination
  by (relation "measure length") auto

fun TrimSpace :: "string \<Rightarrow> string" where
  "TrimSpace [] = []"
| "TrimSpace (c # cs) =
     (if RuneSelf \<le> byte c then TrimFunc_IsSpace (c # cs)
      else if asciiSpace c then TrimSpace cs
      else trimStop (c # cs))"

subsection \<open>strconv.Quote\<close>

definition lowerhex :: "nat \<Rightarrow> char" where
  "lowerhex d = ''0123456789abcdef'' ! d"

text \<open>The last \<open>n\<close> hexadecimal digits of a number, most significant first.\<close>

fun hexN :: "nat \<Rightarrow> nat \<Rightarrow> string" where
  "hexN 0 r = []"
| "hexN (Suc n) r = hexN n (r div 16) @ [lowerhex (r mod 16)]"

definition appendEscapedRune :: "environment \<Rightarrow> nat \<Rightarrow> string" where
  "appendEscapedRune env r =
     (if r = 0x22 \<or> r = 0x5C then [chr_backslash, char_of r]
      else if IsPrint env r then AppendRune r
      else if r = 7 then [chr_backslash, CHR ''a'']
      else if r = 8 then [chr_backslash, CHR ''b'']
      else if r = 12 then [chr_backslash, CHR ''f'']
      else if r = 10 then [chr_backslash, CHR ''n'']
      else if r = 13 then [chr_backslash, CHR ''r'']
      else if r = 9 then [chr_backslash, CHR ''t'']
      else if r = 11 then [chr_backslash, CHR ''v'']
      else if r < 0x20 \<or> r = 0x7F then [chr_backslash, CHR ''x''] @ hexN 2 r
      else if \<not> ValidRune r then [chr_backslash, CHR ''u''] @ hexN 4 0xFFFD
      else if r < 0x10000 then [chr_backslash, CHR ''u''] @ hexN 4 r
      else [chr_backslash, CHR ''U''] @ hexN 8 r)"

fun quoteLoop :: "environment \<Rightarrow> string \<Rightarrow> string" where
  "quoteLoop env [] = []"
| "quoteLoop env (c # cs) =
     (case (if RuneSelf \<le> byte c then DecodeRuneInString (c # cs) else (byte c, 1)) of
        (r, width) \<Rightarrow>
          if width = 1 \<and> r = RuneError
          then [chr_backslash, CHR ''x''] @ hexN 2 (byte c) @ quoteLoop env cs
          else appendEscapedRune env r @ quoteLoop env (drop (width - 1) cs))"

definition Quote :: "environment \<Rightarrow> string \<Rightarrow> string" where
  "Quote env s = chr_dquote # quoteLoop env s @ [chr_dquote]"

subsection \<open>strconv.Unquote\<close>

definition unhex :: "char \<Rightarrow> nat option" where
  "unhex c =
     (let b = byte c
      in if 48 \<le> b \<and> b \<le> 57 then Some (b - 48)
         else if 97 \<le> b \<and> b \<le> 102 then Some (b - 97 + 10)
         else if 65 \<le> b \<and> b \<le> 70 then Some (b - 65 + 10)
         else None)"

fun unhexAll :: "nat \<Rightarrow> string \<Rightarrow> nat option" where
  "unhexAll v [] = Some v"
| "unhexAll v (c # cs) = (case unhex c of None \<Rightarrow> None | Some x \<Rightarrow> unhexAll (v * 16 + x) cs)"

fun unoctAll :: "nat \<Rightarrow> string \<Rightarrow> nat option" where
  "unoctAll v [] = Some v"
| "unoctAll v (c # cs) =
     (if 48 \<le> byte c \<and> byte c \<le> 55 then unoctAll (v * 8 + (byte c - 48)) cs else None)"

text \<open>
  \<^verbatim>\<open>strconv.UnquoteChar\<close> inside a double-quoted string: the value of the first character
  or escape sequence, whether it is to be written as a rune, and the number of bytes read
  (Go returns the rest of the string, which is the string without these bytes).
\<close>

definition UnquoteChar :: "string \<Rightarrow> NumError + (nat \<times> bool \<times> nat)" where
  "UnquoteChar s =
     (case s of
        [] \<Rightarrow> Inl ErrSyntax
      | c # cs \<Rightarrow>
          if c = chr_dquote then Inl ErrSyntax
          else if RuneSelf \<le> byte c then
            (case DecodeRuneInString (c # cs) of (r, width) \<Rightarrow> Inr (r, True, width))
          else if c \<noteq> chr_backslash then Inr (byte c, False, 1)
          else
            (case cs of
               [] \<Rightarrow> Inl ErrSyntax
             | e # rest \<Rightarrow>
                 if e = CHR ''a'' then Inr (7, False, 2)
                 else if e = CHR ''b'' then Inr (8, False, 2)
                 else if e = CHR ''f'' then Inr (12, False, 2)
                 else if e = CHR ''n'' then Inr (10, False, 2)
                 else if e = CHR ''r'' then Inr (13, False, 2)
                 else if e = CHR ''t'' then Inr (9, False, 2)
                 else if e = CHR ''v'' then Inr (11, False, 2)
                 else if e = CHR ''x'' \<or> e = CHR ''u'' \<or> e = CHR ''U'' then
                   (let n = (if e = CHR ''x'' then 2 else if e = CHR ''u'' then 4 else 8)
                    in if length rest < n then Inl ErrSyntax
                       else (case unhexAll 0 (take n rest) of
                               None \<Rightarrow> Inl ErrSyntax
                             | Some v \<Rightarrow>
                                 if e = CHR ''x'' then Inr (v, False, 2 + n)
                                 else if \<not> ValidRune v then Inl ErrSyntax
                                 else Inr (v, True, 2 + n)))
                 else if 48 \<le> byte e \<and> byte e \<le> 55 then
                   (if length rest < 2 then Inl ErrSyntax
                    else (case unoctAll (byte e - 48) (take 2 rest) of
                            None \<Rightarrow> Inl ErrSyntax
                          | Some v \<Rightarrow> if 255 < v then Inl ErrSyntax else Inr (v, False, 4)))
                 else if e = chr_backslash then Inr (0x5C, False, 2)
                 else if e = chr_dquote then Inr (0x22, False, 2)
                 else Inl ErrSyntax))"

text \<open>
  The loop of \<^verbatim>\<open>unquote\<close> over the text behind the opening quote: the unquoted bytes
  and what follows the closing quote.
\<close>

fun unquoteLoop :: "string \<Rightarrow> string \<Rightarrow> NumError + (string \<times> string)" where
  "unquoteLoop buf [] = Inl ErrSyntax"
| "unquoteLoop buf (c # cs) =
     (if c = chr_dquote then Inr (buf, cs)
      else (case UnquoteChar (c # cs) of
              Inl err \<Rightarrow> Inl ErrSyntax
            | Inr (r, multibyte, n) \<Rightarrow>
                if c = chr_newline then Inl ErrSyntax
                else unquoteLoop
                       (buf @ (if r < RuneSelf \<or> \<not> multibyte then [char_of r] else AppendRune r))
                       (drop (n - 1) cs)))"

text \<open>
  \<^verbatim>\<open>strconv.Unquote\<close> of a text that opens with a double quote (the only call in this
  program, from the scanner of \<^verbatim>\<open>fmt\<close>). Without backslash and newline up to the first
  closing quote, and with valid UTF-8 between the quotes, that part is the result;
  otherwise the loop above reads it. Text behind the closing quote is an error.
\<close>

definition Unquote :: "string \<Rightarrow> NumError + string" where
  "Unquote inp =
     (case inp of
        [] \<Rightarrow> Inl ErrSyntax
      | q # cs \<Rightarrow>
          if length inp < 2 \<or> q \<noteq> chr_dquote \<or> chr_dquote \<notin> set cs then Inl ErrSyntax
          else (let body = takeWhile (\<lambda>c. c \<noteq> chr_dquote) cs;
                    rem = drop (length body + 1) cs
                in if chr_backslash \<notin> set body \<and> chr_newline \<notin> set body \<and> ValidString body
                   then (if rem = [] then Inr body else Inl ErrSyntax)
                   else (case unquoteLoop [] cs of
                           Inl err \<Rightarrow> Inl err
                         | Inr (out, rem') \<Rightarrow> if rem' = [] then Inr out else Inl ErrSyntax)))"

subsection \<open>Sprintf\<close>

text \<open>
  An operand of \<^verbatim>\<open>Sprintf\<close>, or a value stored by \<^verbatim>\<open>Sscanf\<close>. \<open>ONamed n v\<close> is a value
  of a defined type that \<^verbatim>\<open>reflect\<close> prints as \<open>n\<close>, with underlying value \<open>v\<close>.
\<close>

datatype operand =
    OInt go_int
  | OUint go_uint
  | OUint8 go_uint8
  | OBool bool
  | OString string
  | ONamed string operand

fun typeString :: "operand \<Rightarrow> string" where
  "typeString (OInt i) = ''int''"
| "typeString (OUint u) = ''uint''"
| "typeString (OUint8 u) = ''uint8''"
| "typeString (OBool b) = ''bool''"
| "typeString (OString s) = ''string''"
| "typeString (ONamed n v) = n"

fun fmtDefault :: "operand \<Rightarrow> string" where
  "fmtDefault (OInt i) = formatInt (sint i)"
| "fmtDefault (OUint u) = formatNat (unat u)"
| "fmtDefault (OUint8 u) = formatNat (unat u)"
| "fmtDefault (OBool b) = (if b then ''true'' else ''false'')"
| "fmtDefault (OString s) = s"
| "fmtDefault (ONamed n v) = fmtDefault v"

definition badVerb :: "char \<Rightarrow> operand \<Rightarrow> string" where
  "badVerb verb arg = ''%!'' @ [verb] @ ''('' @ typeString arg @ ''='' @ fmtDefault arg @ '')''"

fun printArg :: "environment \<Rightarrow> operand \<Rightarrow> char \<Rightarrow> string" where
  "printArg env (OInt i) verb =
     (if verb = CHR ''d'' \<or> verb = CHR ''v'' then formatInt (sint i) else badVerb verb (OInt i))"
| "printArg env (OUint u) verb =
     (if verb = CHR ''d'' \<or> verb = CHR ''v'' then formatNat (unat u) else badVerb verb (OUint u))"
| "printArg env (OUint8 u) verb =
     (if verb = CHR ''d'' \<or> verb = CHR ''v'' then formatNat (unat u) else badVerb verb (OUint8 u))"
| "printArg env (OBool b) verb =
     (if verb = CHR ''t'' \<or> verb = CHR ''v'' then (if b then ''true'' else ''false'')
      else badVerb verb (OBool b))"
| "printArg env (OString s) verb =
     (if verb = CHR ''s'' \<or> verb = CHR ''v'' then s
      else if verb = CHR ''q'' then Quote env s
      else badVerb verb (OString s))"
| "printArg env (ONamed n v) verb =
     (case v of
        OInt i \<Rightarrow> if verb = CHR ''d'' \<or> verb = CHR ''v'' then formatInt (sint i)
                  else badVerb verb (ONamed n v)
      | OUint u \<Rightarrow> if verb = CHR ''d'' \<or> verb = CHR ''v'' then formatNat (unat u)
                   else badVerb verb (ONamed n v)
      | OUint8 u \<Rightarrow> if verb = CHR ''d'' \<or> verb = CHR ''v'' then formatNat (unat u)
                    else badVerb verb (ONamed n v)
      | OBool b \<Rightarrow> if verb = CHR ''t'' \<or> verb = CHR ''v'' then (if b then ''true'' else ''false'')
                   else badVerb verb (ONamed n v)
      | OString s \<Rightarrow> if verb = CHR ''s'' \<or> verb = CHR ''v'' then s
                     else if verb = CHR ''q'' then Quote env s
                     else badVerb verb (ONamed n v)
      | ONamed m w \<Rightarrow> badVerb verb (ONamed n v))"

text \<open>Operands left over when the format is used up: \<^verbatim>\<open>%!(EXTRA type=value, ...)\<close>.\<close>

fun extraList :: "operand list \<Rightarrow> string" where
  "extraList [] = []"
| "extraList [arg] = typeString arg @ ''='' @ fmtDefault arg"
| "extraList (arg # args) = typeString arg @ ''='' @ fmtDefault arg @ '', '' @ extraList args"

definition extraArgs :: "operand list \<Rightarrow> string" where
  "extraArgs a = (if a = [] then [] else ''%!(EXTRA '' @ extraList a @ '')'')"

fun doPrintf :: "environment \<Rightarrow> string \<Rightarrow> operand list \<Rightarrow> string" where
  "doPrintf env [] a = extraArgs a"
| "doPrintf env [c] a = (if c = CHR ''%'' then ''%!(NOVERB)'' @ extraArgs a else c # extraArgs a)"
| "doPrintf env (c # verb # rest) a =
     (if c \<noteq> CHR ''%'' then c # doPrintf env (verb # rest) a
      else if verb = CHR ''%'' then CHR ''%'' # doPrintf env rest a
      else (case a of
              [] \<Rightarrow> ''%!'' @ [verb] @ ''(MISSING)'' @ doPrintf env rest []
            | arg # args \<Rightarrow> printArg env arg verb @ doPrintf env rest args))"

definition Sprintf :: "environment \<Rightarrow> string \<Rightarrow> operand list \<Rightarrow> string" where
  "Sprintf env format a = doPrintf env format a"

subsection \<open>Sscanf\<close>

text \<open>
  The scanner reads runes from the input; a function here takes the input still unread
  and returns a value with the rest, or the error that ends the scan. \<open>ErrUnmodelled\<close>
  marks a format outside the part of \<^verbatim>\<open>fmt\<close> described above.
\<close>

datatype scan_error =
    ErrUnexpectedEOF
  | ErrScan string
  | ErrNum NumError
  | ErrUnmodelled

definition badVerbError :: "char \<Rightarrow> scan_error" where
  "badVerbError verb = ErrScan (''bad verb %'' @ [verb])"

text \<open>
  \<^verbatim>\<open>SkipSpace\<close> as \<^verbatim>\<open>Sscanf\<close> runs it: a newline is not white space but an error, except
  that the carriage return before it is passed over first.
\<close>

fun SkipSpace :: "string \<Rightarrow> scan_error + string" where
  "SkipSpace [] = Inr []"
| "SkipSpace (c # cs) =
     (case DecodeRuneInString (c # cs) of
        (r, width) \<Rightarrow>
          if r = 13 \<and> (case drop (width - 1) cs of [] \<Rightarrow> False | c' # cs' \<Rightarrow> c' = chr_newline)
          then SkipSpace (drop (width - 1) cs)
          else if r = 10 then Inl (ErrScan ''unexpected newline'')
          else if \<not> IsSpace r then Inr (c # cs)
          else SkipSpace (drop (width - 1) cs))"

text \<open>
  \<^verbatim>\<open>scanNumber\<close> for the decimal digits: at least one digit, then as many as follow.
\<close>

definition scanNumber :: "string \<Rightarrow> scan_error + (string \<times> string)" where
  "scanNumber inp =
     (case inp of
        [] \<Rightarrow> Inl ErrUnexpectedEOF
      | c # cs \<Rightarrow>
          if \<not> isDigit c then Inl (ErrScan ''expected integer'')
          else Inr (takeWhile isDigit inp, dropWhile isDigit inp))"

text \<open>
  \<^verbatim>\<open>scanInt\<close> with the verb \<^verbatim>\<open>%d\<close> for a 64-bit \<^verbatim>\<open>int\<close>: white space, an optional sign,
  the digits, and \<^verbatim>\<open>strconv.ParseInt\<close> on the token.
\<close>

definition scanInt :: "char \<Rightarrow> string \<Rightarrow> scan_error + (go_int \<times> string)" where
  "scanInt verb inp =
     (if verb = CHR ''c'' then Inl ErrUnmodelled
      else case SkipSpace inp of
        Inl e \<Rightarrow> Inl e
      | Inr [] \<Rightarrow> Inl ErrUnexpectedEOF
      | Inr (c # cs) \<Rightarrow>
          if verb \<notin> set ''bdoUxXv'' then Inl (badVerbError verb)
          else if verb \<noteq> CHR ''d'' then Inl ErrUnmodelled
          else
          (let sign = (if c = CHR ''+'' \<or> c = CHR ''-'' then [c] else []);
               s1 = (if c = CHR ''+'' \<or> c = CHR ''-'' then cs else c # cs)
           in case scanNumber s1 of
                Inl e \<Rightarrow> Inl e
              | Inr (tok, rest) \<Rightarrow>
                  (case ParseInt (sign @ tok) of
                     (i, Some err) \<Rightarrow> Inl (ErrNum err)
                   | (i, None) \<Rightarrow> Inr (i, rest))))"

text \<open>
  \<^verbatim>\<open>scanUint\<close> with the verb \<^verbatim>\<open>%d\<close> for an unsigned type of \<open>bitSize\<close> bits: no sign,
  \<^verbatim>\<open>strconv.ParseUint\<close> to 64 bits, and the check that the value fits the type.
\<close>

definition scanUint :: "char \<Rightarrow> nat \<Rightarrow> string \<Rightarrow> scan_error + (nat \<times> string)" where
  "scanUint verb bitSize inp =
     (if verb = CHR ''c'' then Inl ErrUnmodelled
      else case SkipSpace inp of
        Inl e \<Rightarrow> Inl e
      | Inr [] \<Rightarrow> Inl ErrUnexpectedEOF
      | Inr (c # cs) \<Rightarrow>
          if verb \<notin> set ''bdoUxXv'' then Inl (badVerbError verb)
          else if verb \<noteq> CHR ''d'' then Inl ErrUnmodelled
          else
          (case scanNumber (c # cs) of
             Inl e \<Rightarrow> Inl e
           | Inr (tok, rest) \<Rightarrow>
               (let un = parseDigits 0 tok
                in if 2 ^ 64 \<le> un then Inl (ErrNum ErrRange)
                   else if 2 ^ bitSize \<le> un then Inl (ErrScan ''unsigned integer overflow'')
                   else Inr (un, rest))))"

text \<open>\<^verbatim>\<open>accept\<close>: read the next rune if it is one of \<open>ok\<close> (ASCII characters here).\<close>

definition accept :: "string \<Rightarrow> string \<Rightarrow> bool \<times> string" where
  "accept ok inp =
     (case inp of
        [] \<Rightarrow> (False, [])
      | c # cs \<Rightarrow> if c \<in> set ok then (True, cs) else (False, c # cs))"

definition scanBool :: "char \<Rightarrow> string \<Rightarrow> scan_error + (bool \<times> string)" where
  "scanBool verb inp =
     (case SkipSpace inp of
        Inl e \<Rightarrow> Inl e
      | Inr [] \<Rightarrow> Inl ErrUnexpectedEOF
      | Inr (c # cs) \<Rightarrow>
          if verb \<notin> set ''tv'' then Inl (badVerbError verb)
          else
          (case DecodeRuneInString (c # cs) of
             (r, width) \<Rightarrow>
               (let rest = drop width (c # cs)
                in if c = CHR ''0'' then Inr (False, rest)
                   else if c = CHR ''1'' then Inr (True, rest)
                   else if c = CHR ''t'' \<or> c = CHR ''T'' then
                     (case accept ''rR'' rest of
                        (False, s1) \<Rightarrow> Inr (True, s1)
                      | (True, s1) \<Rightarrow>
                          (case accept ''uU'' s1 of
                             (False, s2) \<Rightarrow> Inl (ErrScan ''syntax error scanning boolean'')
                           | (True, s2) \<Rightarrow>
                               (case accept ''eE'' s2 of
                                  (False, s3) \<Rightarrow> Inl (ErrScan ''syntax error scanning boolean'')
                                | (True, s3) \<Rightarrow> Inr (True, s3))))
                   else if c = CHR ''f'' \<or> c = CHR ''F'' then
                     (case accept ''aA'' rest of
                        (False, s1) \<Rightarrow> Inr (False, s1)
                      | (True, s1) \<Rightarrow>
                          (case accept ''lL'' s1 of
                             (False, s2) \<Rightarrow> Inl (ErrScan ''syntax error scanning boolean'')
                           | (True, s2) \<Rightarrow>
                               (case accept ''sS'' s2 of
                                  (False, s3) \<Rightarrow> Inl (ErrScan ''syntax error scanning boolean'')
                                | (True, s3) \<Rightarrow>
                                    (case accept ''eE'' s3 of
                                       (False, s4) \<Rightarrow>
                                         Inl (ErrScan ''syntax error scanning boolean'')
                                     | (True, s4) \<Rightarrow> Inr (False, s4)))))
                   else Inr (False, rest))))"

text \<open>
  \<^verbatim>\<open>quotedString\<close>. Behind a back quote everything up to the next back quote is the
  string. Behind a double quote the runes up to the closing quote are collected, a
  backslash taking the rune after it along, and \<^verbatim>\<open>strconv.Unquote\<close> reads what was
  collected.
\<close>

fun backquoted :: "string \<Rightarrow> string \<Rightarrow> scan_error + (string \<times> string)" where
  "backquoted buf [] = Inl ErrUnexpectedEOF"
| "backquoted buf (c # cs) =
     (case DecodeRuneInString (c # cs) of
        (r, width) \<Rightarrow>
          if c = chr_backquote then Inr (buf, cs)
          else backquoted (buf @ AppendRune r) (drop (width - 1) cs))"

function doublequoted :: "string \<Rightarrow> string \<Rightarrow> scan_error + (string \<times> string)" where
  "doublequoted buf inp =
     (case inp of
        [] \<Rightarrow> Inl ErrUnexpectedEOF
      | c # cs \<Rightarrow>
          (case DecodeRuneInString (c # cs) of
             (r, width) \<Rightarrow>
               if c = chr_backslash then
                 (case cs of
                    [] \<Rightarrow> Inl ErrUnexpectedEOF
                  | c2 # cs2 \<Rightarrow>
                      (case DecodeRuneInString (c2 # cs2) of
                         (r2, width2) \<Rightarrow>
                           doublequoted (buf @ AppendRune r @ AppendRune r2) (drop (width2 - 1) cs2)))
               else if c = chr_dquote then Inr (buf @ AppendRune r, cs)
               else doublequoted (buf @ AppendRune r) (drop (width - 1) cs)))"
  by pat_completeness auto
termination
  by (relation "measure (\<lambda>(buf, inp). length inp)") (auto simp: less_Suc_eq_le le_SucI)

definition quotedString :: "string \<Rightarrow> scan_error + (string \<times> string)" where
  "quotedString inp =
     (case inp of
        [] \<Rightarrow> Inl ErrUnexpectedEOF
      | c # cs \<Rightarrow>
          if c = chr_backquote then backquoted [] cs
          else if c = chr_dquote then
            (case doublequoted [chr_dquote] cs of
               Inl e \<Rightarrow> Inl e
             | Inr (buf, rest) \<Rightarrow>
                 (case Unquote buf of
                    Inl err \<Rightarrow> Inl (ErrNum err)
                  | Inr result \<Rightarrow> Inr (result, rest)))
          else Inl (ErrScan ''expected quoted string''))"

definition convertString :: "char \<Rightarrow> string \<Rightarrow> scan_error + (string \<times> string)" where
  "convertString verb inp =
     (if verb \<notin> set ''svqxX'' then Inl (badVerbError verb)
      else case SkipSpace inp of
        Inl e \<Rightarrow> Inl e
      | Inr [] \<Rightarrow> Inl ErrUnexpectedEOF
      | Inr (c # cs) \<Rightarrow>
          if verb = CHR ''q'' then quotedString (c # cs) else Inl ErrUnmodelled)"

text \<open>
  An operand of \<^verbatim>\<open>Sscanf\<close> is a pointer: its type, and what storing a value through it
  does to the state \<open>'st\<close> of the variables pointed to.
\<close>

datatype 'st pointer =
    PInt "go_int \<Rightarrow> 'st \<Rightarrow> 'st"
  | PUint "go_uint \<Rightarrow> 'st \<Rightarrow> 'st"
  | PUint8 "go_uint8 \<Rightarrow> 'st \<Rightarrow> 'st"
  | PBool "bool \<Rightarrow> 'st \<Rightarrow> 'st"
  | PString "string \<Rightarrow> 'st \<Rightarrow> 'st"

text \<open>
  \<^verbatim>\<open>scanOne\<close> picks the scanner by the operand's type; each scanner checks that the verb
  suits it. Of the verbs that do, \<^verbatim>\<open>%d\<close> for the integers, \<^verbatim>\<open>%t\<close> and \<^verbatim>\<open>%v\<close> for
  \<^verbatim>\<open>bool\<close> and \<^verbatim>\<open>%q\<close> for \<^verbatim>\<open>string\<close> are modelled.
\<close>

fun scanOne :: "char \<Rightarrow> 'st pointer \<Rightarrow> string \<Rightarrow> 'st \<Rightarrow> scan_error + ('st \<times> string)" where
  "scanOne verb (PInt store) inp st =
     (case scanInt verb inp of Inl e \<Rightarrow> Inl e | Inr (i, rest) \<Rightarrow> Inr (store i st, rest))"
| "scanOne verb (PUint store) inp st =
     (case scanUint verb 64 inp of
        Inl e \<Rightarrow> Inl e
      | Inr (u, rest) \<Rightarrow> Inr (store (word_of_nat u) st, rest))"
| "scanOne verb (PUint8 store) inp st =
     (case scanUint verb 8 inp of
        Inl e \<Rightarrow> Inl e
      | Inr (u, rest) \<Rightarrow> Inr (store (word_of_nat u) st, rest))"
| "scanOne verb (PBool store) inp st =
     (case scanBool verb inp of Inl e \<Rightarrow> Inl e | Inr (b, rest) \<Rightarrow> Inr (store b st, rest))"
| "scanOne verb (PString store) inp st =
     (case convertString verb inp of
        Inl e \<Rightarrow> Inl e
      | Inr (s, rest) \<Rightarrow> Inr (store s st, rest))"

text \<open>
  \<^verbatim>\<open>doScanf\<close>: a literal character of the format must be the next character of the
  input; at a verb white space is skipped and the next operand is scanned and stored.
  The scan stops at the first error; what was stored before stays stored. The result is
  the state and the error, if any.
\<close>

fun doScanf ::
  "string \<Rightarrow> 'st pointer list \<Rightarrow> string \<Rightarrow> 'st \<Rightarrow> 'st \<times> scan_error option" where
  "doScanf [] a inp st =
     (st, if a = [] then None else Some (ErrScan ''too many operands''))"
| "doScanf [f] a inp st =
     (if f = CHR ''%'' then (st, Some (ErrScan ''missing verb: % at end of format string''))
      else if IsSpace (byte f) \<or> RuneSelf \<le> byte f then (st, Some ErrUnmodelled)
      else (case inp of
              [] \<Rightarrow> (st, Some ErrUnexpectedEOF)
            | c # cs \<Rightarrow>
                if f = c then doScanf [] a cs st
                else (st, Some (ErrScan ''input does not match format''))))"
| "doScanf (f # verb # fs) a inp st =
     (if f \<noteq> CHR ''%'' then
        (if IsSpace (byte f) \<or> RuneSelf \<le> byte f then (st, Some ErrUnmodelled)
         else (case inp of
                 [] \<Rightarrow> (st, Some ErrUnexpectedEOF)
               | c # cs \<Rightarrow>
                   if f = c then doScanf (verb # fs) a cs st
                   else (st, Some (ErrScan ''input does not match format''))))
      else if verb = CHR ''%'' then
        (case inp of
           [] \<Rightarrow> (st, Some ErrUnexpectedEOF)
         | c # cs \<Rightarrow>
             if c = CHR ''%'' then doScanf fs a cs st
             else (st, Some (ErrScan ''input does not match format'')))
      else if isDigit verb \<or> RuneSelf \<le> byte verb \<or> verb = CHR ''c'' then (st, Some ErrUnmodelled)
      else (case SkipSpace inp of
              Inl e \<Rightarrow> (st, Some e)
            | Inr inp1 \<Rightarrow>
                (case a of
                   [] \<Rightarrow> (st, Some (ErrScan ''too few operands for format''))
                 | arg # args \<Rightarrow>
                     (case scanOne verb arg inp1 st of
                        Inl e \<Rightarrow> (st, Some e)
                      | Inr (st1, rest) \<Rightarrow> doScanf fs args rest st1))))"

definition Sscanf ::
  "string \<Rightarrow> string \<Rightarrow> 'st pointer list \<Rightarrow> 'st \<Rightarrow> 'st \<times> scan_error option" where
  "Sscanf str format a st = doScanf format a str st"

section \<open>Query options: String and Scan (queryoptions.go)\<close>

definition qoStringPattern :: string where
  "qoStringPattern = ''|%d|%t|%q|%d|%d|%d|%d|%q|%d|%d|%d|%q|''"

definition String :: "environment \<Rightarrow> TQueryOptions \<Rightarrow> string" where
  "String env qo =
     Sprintf env qoStringPattern
       [ONamed (TID_type env) (OInt (ID qo)), OBool (Descending qo), OString (Entity qo),
        OUint8 (GuiLang qo), OUint8 (Layout qo), OUint (LimitLength qo), OUint (LimitStart qo),
        OString (Matching qo), OUint (QueryCount qo), OUint8 (SortBy qo), OUint8 (Theme qo),
        OString (VirtLib qo)]"

text \<open>
  \<^verbatim>\<open>Scan\<close> hands \<^verbatim>\<open>Sscanf\<close> pointers to ten fields of the options and to the local
  variables \<open>m\<close> and \<open>v\<close>, drops its error, and then sets Matching and VirtLib from
  \<open>m\<close> and \<open>v\<close>. The state of the scan is the options with \<open>m\<close> and \<open>v\<close>.
\<close>

type_synonym scan_state = "TQueryOptions \<times> string \<times> string"

definition scan_pointers :: "scan_state pointer list" where
  "scan_pointers =
     [PInt (\<lambda>x (qo, m, v). (qo\<lparr>ID := x\<rparr>, m, v)),
      PBool (\<lambda>x (qo, m, v). (qo\<lparr>Descending := x\<rparr>, m, v)),
      PString (\<lambda>x (qo, m, v). (qo\<lparr>Entity := x\<rparr>, m, v)),
      PUint8 (\<lambda>x (qo, m, v). (qo\<lparr>GuiLang := x\<rparr>, m, v)),
      PUint8 (\<lambda>x (qo, m, v). (qo\<lparr>Layout := x\<rparr>, m, v)),
      PUint (\<lambda>x (qo, m, v). (qo\<lparr>LimitLength := x\<rparr>, m, v)),
      PUint (\<lambda>x (qo, m, v). (qo\<lparr>LimitStart := x\<rparr>, m, v)),
      PString (\<lambda>x (qo, m, v). (qo, x, v)),
      PUint (\<lambda>x (qo, m, v). (qo\<lparr>QueryCount := x\<rparr>, m, v)),
      PUint8 (\<lambda>x (qo, m, v). (qo\<lparr>SortBy := x\<rparr>, m, v)),
      PUint8 (\<lambda>x (qo, m, v). (qo\<lparr>Theme := x\<rparr>, m, v)),
      PString (\<lambda>x (qo, m, v). (qo, m, x))]"

definition Scan :: "TQueryOptions \<Rightarrow> string \<Rightarrow> TQueryOptions" where
  "Scan qo aString =
     (case fst (Sscanf aString qoStringPattern scan_pointers (qo, [], [])) of
        (qo1, m, v) \<Rightarrow>
          qo1\<lparr>Matching := TrimSpace m,
              VirtLib := (if ''-'' = v then [] else TrimSpace v)\<rparr>)"

text \<open>
  An environment for the examples: \<^verbatim>\<open>TID\<close> an alias of \<^verbatim>\<open>int\<close>, and a table that calls
  no rune above U+00FF printable (the examples hold none).
\<close>

definition env_int :: environment where
  "env_int = \<lparr>unicode_IsPrint = (\<lambda>r. False), TID_type = ''int''\<rparr>"

section \<open>SQL clause composer (db/queries.go)\<close>

subsection \<open>escapeQuery\<close>

text \<open>
  Go panics on a store outside a slice and on a slice bound beyond the capacity. Both
  are results here, so that the absence of a panic is a statement about the function.
\<close>

datatype panic = IndexOutOfRange | SliceBoundsOutOfRange

definition store :: "char list \<Rightarrow> nat \<Rightarrow> char \<Rightarrow> panic + char list" where
  "store buf j c = (if j < length buf then Inr (buf[j := c]) else Inl IndexOutOfRange)"








subsection \<open>having, limit, orderBy\<close>

definition quHaving :: "string \<rightharpoonup> string" where
  "quHaving = map_of
     [(''all'', []),
      (''authors'', ''JOIN books_authors_link a ON(a.book = b.id) WHERE (a.author = %d) ''),
      (''format'', ''JOIN data d ON(b.id = d.book) JOIN data dd ON (d.format = dd.format) WHERE (dd.id = %d) ''),
      (''languages'', ''JOIN books_languages_link l ON(l.book = b.id) WHERE (l.lang_code = %d) ''),
      (''publisher'', ''JOIN books_publishers_link p ON(p.book = b.id) WHERE (p.publisher = %d) ''),
      (''series'', ''JOIN books_series_link s ON(s.book = b.id) WHERE (s.series = %d) ''),
      (''tags'', ''JOIN books_tags_link t ON(t.book = b.id) WHERE (t.tag = %d) '')]"

text \<open>Reading a Go map at a key it does not hold gives the zero value, the empty string.\<close>

definition quHaving_at :: "string \<Rightarrow> string" where
  "quHaving_at aEntity = (case quHaving aEntity of Some f \<Rightarrow> f | None \<Rightarrow> [])"

definition having :: "environment \<Rightarrow> string \<Rightarrow> go_int \<Rightarrow> string" where
  "having env aEntity aID =
     (if 0 = length aEntity \<or> ''all'' = aEntity \<or> 0 = aID then []
      else Sprintf env (quHaving_at aEntity) [ONamed (TID_type env) (OInt aID)])"

definition limit :: "go_uint \<Rightarrow> go_uint \<Rightarrow> string" where
  "limit aStart aLength = ''LIMIT '' @ formatInt (sint aStart) @ '','' @ formatInt (sint aLength)"

definition orderBy :: "go_uint8 \<Rightarrow> bool \<Rightarrow> string" where
  "orderBy aOrder aDescending =
     (let desc = (if aDescending then '' DESC'' else []);
          wrap = (\<lambda>result. '' ORDER BY '' @ result @ desc @ '' '')
      in if aOrder = qoSortByAcquisition then
           wrap (''b.timestamp'' @ desc @ '', b.pubdate'' @ desc @ '', b.author_sort'')
         else if aOrder = qoSortByAuthor then
           wrap (''b.author_sort'' @ desc @ '', b.pubdate'')
         else if aOrder = qoSortByLanguage then
           wrap (''languages'' @ desc @ '', b.author_sort'' @ desc @ '', b.sort'')
         else if aOrder = qoSortByPublisher then
           wrap (''publisher'' @ desc @ '', b.author_sort'' @ desc @ '', b.sort'')
         else if aOrder = qoSortByRating then
           wrap (''rating'' @ desc @ '', b.author_sort'' @ desc @ '', b.sort'')
         else if aOrder = qoSortBySeries then
           wrap (''series'' @ desc @ '', b.series_index'' @ desc @ '', b.sort'')
         else if aOrder = qoSortBySize then
           wrap (''size'' @ desc @ '', b.author_sort'')
         else if aOrder = qoSortByTags then
           wrap (''tags'' @ desc @ '', b.author_sort'')
         else if aOrder = qoSortByTime then
           wrap (''b.pubdate'' @ desc @ '', b.timestamp'' @ desc @ '', b.author_sort'')
         else if aOrder = qoSortByTitle then
           wrap (''b.sort'' @ desc @ '', b.author_sort'')
         else [])"

section \<open>Query orchestration (db/queries.go)\<close>


definition quBaseQuery :: string where
  "quBaseQuery =
     ''SELECT b.id,'' @ [chr_newline]
     @ ''b.title,'' @ [chr_newline]
     @ ''IFNULL((SELECT group_concat(a.name || '' @ [chr_dquote] @ ''|'' @ [chr_dquote] @ '' || a.id, '' @ [chr_dquote] @ '', '' @ [chr_dquote] @ '')'' @ [chr_newline]
     @ [chr_tab] @ ''FROM authors a'' @ [chr_newline]
     @ [chr_tab] @ ''JOIN books_authors_link bal ON(bal.author = a.id)'' @ [chr_newline]
     @ [chr_tab] @ ''WHERE (bal.book = b.id)'' @ [chr_newline]
     @ ''), '' @ [chr_dquote] @ [chr_dquote] @ '') authors,'' @ [chr_newline]
     @ ''IFNULL((SELECT group_concat(p.name || '' @ [chr_dquote] @ ''|'' @ [chr_dquote] @ '' || p.id)'' @ [chr_newline]
     @ [chr_tab] @ ''FROM publishers p'' @ [chr_newline]
     @ [chr_tab] @ ''JOIN books_publishers_link bpl ON(p.id = bpl.publisher)'' @ [chr_newline]
     @ [chr_tab] @ ''WHERE (bpl.book = b.id)'' @ [chr_newline]
     @ ''), '' @ [chr_dquote] @ [chr_dquote] @ '') publisher,'' @ [chr_newline]
     @ ''IFNULL((SELECT r.rating'' @ [chr_newline]
     @ [chr_tab] @ ''FROM ratings r'' @ [chr_newline]
     @ [chr_tab] @ ''WHERE r.id IN ('' @ [chr_newline]
     @ [chr_tab] @ [chr_tab] @ ''SELECT brl.rating'' @ [chr_newline]
     @ [chr_tab] @ [chr_tab] @ ''from books_ratings_link brl'' @ [chr_newline]
     @ [chr_tab] @ [chr_tab] @ ''WHERE (brl.book = b.id)'' @ [chr_newline]
     @ [chr_tab] @ '')'' @ [chr_newline]
     @ ''), 0) rating,'' @ [chr_newline]
     @ ''b.timestamp,'' @ [chr_newline]
     @ ''IFNULL((SELECT MAX(data.uncompressed_size)'' @ [chr_newline]
     @ [chr_tab] @ ''FROM data'' @ [chr_newline]
     @ [chr_tab] @ ''WHERE (data.book = b.id)'' @ [chr_newline]
     @ ''), 0) size,'' @ [chr_newline]
     @ ''IFNULL((SELECT group_concat(t.name || '' @ [chr_dquote] @ ''|'' @ [chr_dquote] @ '' || t.id, '' @ [chr_dquote] @ '', '' @ [chr_dquote] @ '')'' @ [chr_newline]
     @ [chr_tab] @ ''FROM tags t'' @ [chr_newline]
     @ [chr_tab] @ ''JOIN books_tags_link btl ON(btl.tag = t.id)'' @ [chr_newline]
     @ [chr_tab] @ ''WHERE (btl.book = b.id)'' @ [chr_newline]
     @ ''), '' @ [chr_dquote] @ [chr_dquote] @ '') tags,'' @ [chr_newline]
     @ ''IFNULL((SELECT c.text'' @ [chr_newline]
     @ [chr_tab] @ ''FROM comments c'' @ [chr_newline]
     @ [chr_tab] @ ''WHERE (c.book = b.id)'' @ [chr_newline]
     @ ''), '' @ [chr_dquote] @ [chr_dquote] @ '') comments,'' @ [chr_newline]
     @ ''IFNULL((SELECT group_concat(s.name || '' @ [chr_dquote] @ ''|'' @ [chr_dquote] @ '' || s.id, '' @ [chr_dquote] @ '', '' @ [chr_dquote] @ '')'' @ [chr_newline]
     @ [chr_tab] @ ''FROM series s'' @ [chr_newline]
     @ [chr_tab] @ ''JOIN books_series_link bsl ON(bsl.series = s.id)'' @ [chr_newline]
     @ [chr_tab] @ ''WHERE (bsl.book = b.id)'' @ [chr_newline]
     @ ''), '' @ [chr_dquote] @ [chr_dquote] @ '') series,'' @ [chr_newline]
     @ ''b.series_index,'' @ [chr_newline]
     @ ''b.sort AS title_sort,'' @ [chr_newline]
     @ ''b.author_sort,'' @ [chr_newline]
     @ ''IFNULL((SELECT group_concat(d.format || '' @ [chr_dquote] @ ''|'' @ [chr_dquote] @ '' || d.id, '' @ [chr_dquote] @ '', '' @ [chr_dquote] @ '')'' @ [chr_newline]
     @ [chr_tab] @ ''FROM data d'' @ [chr_newline]
     @ [chr_tab] @ ''WHERE (d.book = b.id)'' @ [chr_newline]
     @ ''), '' @ [chr_dquote] @ [chr_dquote] @ '') formats,'' @ [chr_newline]
     @ ''IFNULL((SELECT group_concat(l.lang_code || '' @ [chr_dquote] @ ''|'' @ [chr_dquote] @ '' || l.id, '' @ [chr_dquote] @ '', '' @ [chr_dquote] @ '')'' @ [chr_newline]
     @ [chr_tab] @ ''FROM books_languages_link bll'' @ [chr_newline]
     @ [chr_tab] @ ''JOIN languages l ON(bll.lang_code = l.id)'' @ [chr_newline]
     @ [chr_tab] @ ''WHERE (bll.book = b.id)'' @ [chr_newline]
     @ ''), '' @ [chr_dquote] @ [chr_dquote] @ '') languages,'' @ [chr_newline]
     @ ''b.isbn,'' @ [chr_newline]
     @ ''IFNULL((SELECT group_concat(i.type || '' @ [chr_dquote] @ ''|'' @ [chr_dquote] @ '' || i.id || '' @ [chr_dquote] @ ''|'' @ [chr_dquote] @ '' || i.val, '' @ [chr_dquote] @ '', '' @ [chr_dquote] @ '')'' @ [chr_newline]
     @ [chr_tab] @ ''FROM identifiers i'' @ [chr_newline]
     @ [chr_tab] @ ''WHERE (i.book = b.id)'' @ [chr_newline]
     @ ''), '' @ [chr_dquote] @ [chr_dquote] @ '') identifiers,'' @ [chr_newline]
     @ ''b.path,'' @ [chr_newline]
     @ ''b.lccn,'' @ [chr_newline]
     @ ''b.pubdate,'' @ [chr_newline]
     @ ''b.flags,'' @ [chr_newline]
     @ ''b.uuid,'' @ [chr_newline]
     @ ''b.has_cover'' @ [chr_newline]
     @ ''FROM books b ''"

definition quCountQuery :: string where
  "quCountQuery = ''SELECT COUNT(b.id) FROM books b ''"

text \<open>
  The store and the search expression are outside the sources at hand and are parameters.
  \<open>Query\<close> is \<^verbatim>\<open>dbSqliteDB.Query\<close>: an error or a row cursor. \<open>Next\<close> is the first
  \<^verbatim>\<open>rows.Next()\<close> on a cursor, and \<open>ScanInt rows n\<close> is the value of an \<^verbatim>\<open>int\<close>
  destination holding \<open>n\<close> after \<^verbatim>\<open>rows.Scan\<close> (whose error the code drops).
  \<open>materialize\<close> is the row loop of \<^verbatim>\<open>doQueryAll\<close>, which builds the document list from
  a cursor. \<open>NewSearch\<close> and \<open>Clause\<close> are the search expression's constructor and its
  \<^verbatim>\<open>Clause()\<close> method, which may change the expression it is called on.
\<close>

datatype go_error = Error string

record ('rows, 'doclist, 'search) store =
  Query :: "string \<Rightarrow> go_error + 'rows"
  Next :: "'rows \<Rightarrow> bool"
  ScanInt :: "'rows \<Rightarrow> go_int \<Rightarrow> go_int"
  materialize :: "'rows \<Rightarrow> 'doclist"
  NewSearch :: "string \<Rightarrow> 'search"
  Clause :: "'search \<Rightarrow> string \<times> 'search"

definition doQueryAll ::
  "('rows, 'doclist, 'search) store \<Rightarrow> string \<Rightarrow> 'doclist option \<times> go_error option" where
  "doQueryAll st aQuery =
     (case Query st aQuery of
        Inl err \<Rightarrow> (None, Some err)
      | Inr rows \<Rightarrow> (Some (materialize st rows), None))"

text \<open>
  The count read by both operations: \<open>rCount\<close> starts at 0 and is stored only when the
  query succeeds and has a row.
\<close>

definition countRows :: "('rows, 'doclist, 'search) store \<Rightarrow> string \<Rightarrow> go_int" where
  "countRows st aQuery =
     (case Query st aQuery of
        Inl err \<Rightarrow> 0
      | Inr rows \<Rightarrow> if Next st rows then ScanInt st rows 0 else 0)"

text \<open>
  Both operations return \<open>(rCount, rList, rErr)\<close>; the fourth component here is the list
  of the SQL texts passed to the store, in order.
\<close>

definition QueryBy ::
  "environment \<Rightarrow> ('rows, 'doclist, 'search) store \<Rightarrow> TQueryOptions
     \<Rightarrow> go_int \<times> 'doclist option \<times> go_error option \<times> string list" where
  "QueryBy env st aOptions =
     (let q1 = quCountQuery @ having env (Entity aOptions) (ID aOptions);
          rCount = countRows st q1
      in if 0 < sint rCount then
           (let q2 = quBaseQuery @ having env (Entity aOptions) (ID aOptions)
                       @ orderBy (SortBy aOptions) (Descending aOptions)
                       @ limit (LimitStart aOptions) (LimitLength aOptions);
                (rList, rErr) = doQueryAll st q2
            in (rCount, rList, rErr, [q1, q2]))
         else (rCount, None, None, [q1]))"

definition QuerySearch ::
  "('rows, 'doclist, 'search) store \<Rightarrow> TQueryOptions
     \<Rightarrow> go_int \<times> 'doclist option \<times> go_error option \<times> string list" where
  "QuerySearch st aOptions =
     (let where0 = NewSearch st (Matching aOptions);
          (clause1, where1) = Clause st where0;
          q1 = quCountQuery @ clause1;
          rCount = countRows st q1
      in if 0 < sint rCount then
           (let (clause2, where2) = Clause st where1;
                q2 = quBaseQuery @ clause2
                       @ orderBy (SortBy aOptions) (Descending aOptions)
                       @ limit (LimitStart aOptions) (LimitLength aOptions);
                (rList, rErr) = doQueryAll st q2
            in (rCount, rList, rErr, [q1, q2]))
         else (rCount, None, Some (Error ''No documents found''), [q1]))"

text \<open>A store for the examples: every query succeeds, the count query finds no rows.\<close>

definition store_no_rows :: "(nat, nat list, string) store" where
  "store_no_rows =
     \<lparr>Query = (\<lambda>q. Inr 0), Next = (\<lambda>r. False), ScanInt = (\<lambda>r n. n),
      materialize = (\<lambda>r. []), NewSearch = (\<lambda>m. m), Clause = (\<lambda>w. (''WHERE 0 '', w))\<rparr>"

text \<open>The SQL texts the two operations build.\<close>

definition by_count_query :: "environment \<Rightarrow> TQueryOptions \<Rightarrow> string" where
  "by_count_query env aOptions = quCountQuery @ having env (Entity aOptions) (ID aOptions)"

definition by_detail_query :: "environment \<Rightarrow> TQueryOptions \<Rightarrow> string" where
  "by_detail_query env aOptions =
     quBaseQuery @ having env (Entity aOptions) (ID aOptions)
       @ orderBy (SortBy aOptions) (Descending aOptions)
       @ limit (LimitStart aOptions) (LimitLength aOptions)"

definition search_count_query :: "('rows, 'doclist, 'search) store \<Rightarrow> TQueryOptions \<Rightarrow> string" where
  "search_count_query st aOptions = quCountQuery @ fst (Clause st (NewSearch st (Matching aOptions)))"

definition search_detail_query :: "('rows, 'doclist, 'search) store \<Rightarrow> TQueryOptions \<Rightarrow> string" where
  "search_detail_query st aOptions =
     quBaseQuery @ fst (Clause st (snd (Clause st (NewSearch st (Matching aOptions)))))
       @ orderBy (SortBy aOptions) (Descending aOptions)
       @ limit (LimitStart aOptions) (LimitLength aOptions)"

section \<open>Multi-valued field decoder (db/queries.go)\<close>

subsection \<open>strings.Split and strings.SplitN\<close>

text \<open>
  \<^verbatim>\<open>strings.Index\<close>: the position of the first occurrence of \<open>sep\<close>, if there is one.
\<close>

fun Index :: "string \<Rightarrow> string \<Rightarrow> nat option" where
  "Index [] sep = (if sep = [] then Some 0 else None)"
| "Index (c # cs) sep =
     (if prefix sep (c # cs) then Some 0 else map_option Suc (Index cs sep))"

text \<open>
  The loop of \<^verbatim>\<open>genSplit\<close> for a separator that is not empty: cut at the first separator
  while cuts are left, the remainder is the last piece.
\<close>

fun splitLoop :: "string \<Rightarrow> string \<Rightarrow> nat \<Rightarrow> string list" where
  "splitLoop s sep 0 = [s]"
| "splitLoop s sep (Suc cuts) =
     (case Index s sep of
        None \<Rightarrow> [s]
      | Some m \<Rightarrow> take m s # splitLoop (drop (m + length sep) s) sep cuts)"

text \<open>
  \<^verbatim>\<open>SplitN(s, sep, n)\<close> for \<open>n > 0\<close> gives at most \<open>n\<close> pieces, and never more than
  \<open>len(s) + 1\<close>. \<^verbatim>\<open>Split(s, sep)\<close> asks for \<^verbatim>\<open>Count(s, sep) + 1\<close> pieces, that is for
  every cut; as the loop stops where no separator is left and a string holds at most
  \<open>len(s)\<close> separators, \<open>len(s)\<close> cuts are all of them. Both are called with a
  separator that is not empty.
\<close>

definition SplitN :: "string \<Rightarrow> string \<Rightarrow> nat \<Rightarrow> string list" where
  "SplitN s sep n = (if n = 0 then [] else splitLoop s sep (min n (length s + 1) - 1))"

definition Split :: "string \<Rightarrow> string \<Rightarrow> string list" where
  "Split s sep = splitLoop s sep (length s)"

subsection \<open>Entity records\<close>

record TEntity =
  ID_TEntity :: go_int
  Name :: string
  URL :: string

text \<open>Indexing a slice panics out of range.\<close>

definition at :: "'a list \<Rightarrow> nat \<Rightarrow> panic + 'a" where
  "at xs i = (if i < length xs then Inr (xs ! i) else Inl IndexOutOfRange)"

text \<open>
  The body of the decoders' loop for one segment that is not empty. The error of
  \<^verbatim>\<open>Atoi\<close> is dropped and its value kept.
\<close>

definition entityOf :: "string \<Rightarrow> panic + TEntity" where
  "entityOf val =
     (let a = SplitN val ''|'' 2 @ [[]]
      in case at a 1 of
           Inl e \<Rightarrow> Inl e
         | Inr a1 \<Rightarrow>
             (let num = fst (Atoi a1)
              in case at a 0 of
                   Inl e \<Rightarrow> Inl e
                 | Inr a0 \<Rightarrow> Inr \<lparr>ID_TEntity = num, Name = a0, URL = []\<rparr>))"

fun decodeLoop :: "string list \<Rightarrow> TEntity list \<Rightarrow> panic + TEntity list" where
  "decodeLoop [] result = Inr result"
| "decodeLoop (val # list) result =
     (if 0 = length val then decodeLoop list result
      else (case entityOf val of
              Inl e \<Rightarrow> Inl e
            | Inr ent \<Rightarrow> decodeLoop list (result @ [ent])))"

text \<open>The comparison the decoders hand to \<^verbatim>\<open>sort.Slice\<close>: Go compares strings byte by byte.\<close>

definition lessName :: "TEntity \<Rightarrow> TEntity \<Rightarrow> bool" where
  "lessName x y = (Name x < Name y)"

text \<open>
  \<^verbatim>\<open>sort.Slice\<close> belongs to Go's library and is a parameter \<open>sortSlice\<close> of the decoders:
  given the comparison and the slice it returns the slice as the call leaves it.
\<close>

type_synonym SortSlice = "(TEntity \<Rightarrow> TEntity \<Rightarrow> bool) \<Rightarrow> TEntity list \<Rightarrow> TEntity list"

definition prepAuthors :: "SortSlice \<Rightarrow> string \<Rightarrow> panic + TEntity list" where
  "prepAuthors sortSlice aAuthor =
     (case decodeLoop (Split aAuthor '', '') [] of
        Inl e \<Rightarrow> Inl e
      | Inr result \<Rightarrow> Inr (if 1 < length result then sortSlice lessName result else result))"

definition prepTags :: "SortSlice \<Rightarrow> string \<Rightarrow> panic + TEntity list" where
  "prepTags sortSlice aTag =
     (case decodeLoop (Split aTag '', '') [] of
        Inl e \<Rightarrow> Inl e
      | Inr result \<Rightarrow> Inr (if 1 < length result then sortSlice lessName result else result))"

subsection \<open>sort.Slice on short slices\<close>

text \<open>
  Go's \<^verbatim>\<open>insertionSort_func(data, a, b)\<close>: element \<open>i\<close> of \<open>data[a:b]\<close> is swapped
  leftwards while it is lessf than its left neighbour.
\<close>

definition swap :: "'a list \<Rightarrow> nat \<Rightarrow> nat \<Rightarrow> 'a list" where
  "swap data i j = data[i := data ! j, j := data ! i]"

function insertionInner :: "('a \<Rightarrow> 'a \<Rightarrow> bool) \<Rightarrow> 'a list \<Rightarrow> nat \<Rightarrow> nat \<Rightarrow> 'a list" where
  "insertionInner lessf data a j =
     (if a < j \<and> lessf (data ! j) (data ! (j - 1))
      then insertionInner lessf (swap data j (j - 1)) a (j - 1)
      else data)"
  by pat_completeness auto
termination
  by (relation "measure (\<lambda>(lessf, data, a, j). j)") auto

function insertionOuter ::
  "('a \<Rightarrow> 'a \<Rightarrow> bool) \<Rightarrow> 'a list \<Rightarrow> nat \<Rightarrow> nat \<Rightarrow> nat \<Rightarrow> 'a list" where
  "insertionOuter lessf data a b i =
     (if i < b then insertionOuter lessf (insertionInner lessf data a i) a b (i + 1) else data)"
  by pat_completeness auto
termination
  by (relation "measure (\<lambda>(lessf, data, a, b, i). b - i)") auto

definition insertionSort_func :: "('a \<Rightarrow> 'a \<Rightarrow> bool) \<Rightarrow> 'a list \<Rightarrow> nat \<Rightarrow> nat \<Rightarrow> 'a list" where
  "insertionSort_func lessf data a b = insertionOuter lessf data a b (a + 1)"

text \<open>
  What \<^verbatim>\<open>sort.Slice\<close> of Go 1.18 and earlier (the releases of the time of this code) does
  to a slice of at most 12 elements, the tail of \<^verbatim>\<open>quickSort_func\<close>: one pass that
  compares the elements 6 apart, then insertion sort. On at most 6 elements the pass has
  nothing to compare and the call is insertion sort, as it is in the later releases too.
\<close>

function shellPass :: "('a \<Rightarrow> 'a \<Rightarrow> bool) \<Rightarrow> 'a list \<Rightarrow> nat \<Rightarrow> nat \<Rightarrow> 'a list" where
  "shellPass lessf data b i =
     (if i < b
      then shellPass lessf (if lessf (data ! i) (data ! (i - 6)) then swap data i (i - 6) else data)
             b (i + 1)
      else data)"
  by pat_completeness auto
termination
  by (relation "measure (\<lambda>(lessf, data, b, i). b - i)") auto

definition quickSort_short :: "('a \<Rightarrow> 'a \<Rightarrow> bool) \<Rightarrow> 'a list \<Rightarrow> nat \<Rightarrow> nat \<Rightarrow> 'a list" where
  "quickSort_short lessf data a b =
     (if 1 < b - a then insertionSort_func lessf (shellPass lessf data b (a + 6)) a b else data)"

definition sortSlice_short :: "('a \<Rightarrow> 'a \<Rightarrow> bool) \<Rightarrow> 'a list \<Rightarrow> 'a list" where
  "sortSlice_short lessf data = quickSort_short lessf data 0 (length data)"

text \<open>
  What the documentation of \<^verbatim>\<open>sort.Slice\<close> promises of a call with the decoders'
  comparison: the same elements, in ascending order of the comparison; and what every
  release does on at most 6 elements.
\<close>

definition sortSlice_contract :: "SortSlice \<Rightarrow> bool" where
  "sortSlice_contract sortSlice =
     (\<forall>data. mset (sortSlice lessName data) = mset data
           \<and> sorted_wrt (\<lambda>x y. \<not> lessName y x) (sortSlice lessName data))"

definition sortSlice_insertion_upto6 :: "SortSlice \<Rightarrow> bool" where
  "sortSlice_insertion_upto6 sortSlice =
     (\<forall>data. length data \<le> 6 \<longrightarrow>
        sortSlice lessName data = insertionSort_func lessName data 0 (length data))"

subsection \<open>Insertion sort as a function on lists\<close>

text \<open>
  Insertion into a sorted prefix held in reverse, and insertion sort with such a prefix:
  what the loops of \<open>insertionSort_func\<close> compute, in a form fit for induction.
\<close>

fun insr :: "('a \<Rightarrow> 'a \<Rightarrow> bool) \<Rightarrow> 'a \<Rightarrow> 'a list \<Rightarrow> 'a list" where
  "insr lessf x [] = [x]"
| "insr lessf x (y # ys) = (if lessf x y then y # insr lessf x ys else x # y # ys)"

fun isort_acc :: "('a \<Rightarrow> 'a \<Rightarrow> bool) \<Rightarrow> 'a list \<Rightarrow> 'a list \<Rightarrow> 'a list" where
  "isort_acc lessf racc [] = rev racc"
| "isort_acc lessf racc (x # xs) = isort_acc lessf (insr lessf x racc) xs"

text \<open>The records a packed column holds, in the order of the column, before sorting.\<close>

definition decodedOf :: "string \<Rightarrow> TEntity list" where
  "decodedOf s = (case decodeLoop (Split s '', '') [] of Inr r \<Rightarrow> r | Inl e \<Rightarrow> [])"

definition ent :: "string \<Rightarrow> go_int \<Rightarrow> TEntity" where
  "ent n i = \<lparr>ID_TEntity = i, Name = n, URL = []\<rparr>"

section \<open>How a quoted string is made up\<close>

text \<open>
  The vocabulary of the proofs about \<^verbatim>\<open>%q\<close>. \<open>multibyte r bs\<close>: the bytes \<open>bs\<close> are the
  UTF-8 encoding of the rune \<open>r\<close> above U+007F. \<open>plain c\<close>: an ASCII byte that stands for
  itself between double quotes. \<open>simple_escape c e\<close>: the byte \<open>c\<close> is written as a
  backslash and the letter \<open>e\<close>. \<open>chunk bs esc\<close>: the text \<open>esc\<close> is one of the ways Go
  writes the bytes \<open>bs\<close> of one rune, or one byte that is no rune, between double quotes.
  \<open>encodes s Q\<close>: \<open>Q\<close> writes the string \<open>s\<close> chunk by chunk.
\<close>

definition multibyte :: "nat \<Rightarrow> string \<Rightarrow> bool" where
  "multibyte r bs =
     (2 \<le> length bs \<and> (\<forall>sfx. DecodeRuneInString (bs @ sfx) = (r, length bs))
      \<and> AppendRune r = bs \<and> 0x80 \<le> r \<and> ValidRune r \<and> (\<forall>b\<in>set bs. 0x80 \<le> byte b))"

definition plain :: "char \<Rightarrow> bool" where
  "plain c = (byte c < 0x80 \<and> c \<noteq> chr_dquote \<and> c \<noteq> chr_backslash \<and> c \<noteq> chr_newline)"

definition simple_escape :: "char \<Rightarrow> char \<Rightarrow> bool" where
  "simple_escape c e =
     ((c = chr_dquote \<and> e = chr_dquote) \<or> (c = chr_backslash \<and> e = chr_backslash)
      \<or> (c = CHR 0x07 \<and> e = CHR ''a'') \<or> (c = CHR 0x08 \<and> e = CHR ''b'')
      \<or> (c = CHR 0x0C \<and> e = CHR ''f'') \<or> (c = CHR 0x0A \<and> e = CHR ''n'')
      \<or> (c = CHR 0x0D \<and> e = CHR ''r'') \<or> (c = CHR 0x09 \<and> e = CHR ''t'')
      \<or> (c = CHR 0x0B \<and> e = CHR ''v''))"

inductive chunk :: "string \<Rightarrow> string \<Rightarrow> bool" where
  raw_ascii: "plain c \<Longrightarrow> chunk [c] [c]"
| raw_rune: "multibyte r bs \<Longrightarrow> chunk bs bs"
| esc_simple: "simple_escape c e \<Longrightarrow> chunk [c] [chr_backslash, e]"
| esc_x: "chunk [c] ([chr_backslash, CHR ''x''] @ hexN 2 (byte c))"
| esc_u: "multibyte r bs \<Longrightarrow> r < 0x10000 \<Longrightarrow> chunk bs ([chr_backslash, CHR ''u''] @ hexN 4 r)"
| esc_U: "multibyte r bs \<Longrightarrow> chunk bs ([chr_backslash, CHR ''U''] @ hexN 8 r)"

inductive encodes :: "string \<Rightarrow> string \<Rightarrow> bool" where
  enc_Nil: "encodes [] []"
| enc_Cons: "chunk bs esc \<Longrightarrow> encodes s Q \<Longrightarrow> encodes (bs @ s) (esc @ Q)"

chapter \<open>Properties\<close>

section \<open>Pagination\<close>

text \<open>
  C8. IncLimit adds LimitLength to LimitStart (Go's unsigned addition, no bound is checked)
  and changes nothing else. DecLimit sets LimitStart to 0 when LimitStart is at most
  LimitLength and subtracts LimitLength otherwise, changing nothing else; the difference
  is then taken without wrap-around, so the result is never below zero. From
  LimitStart = 0 and LimitLength = 24 one IncLimit gives 24, a DecLimit after it gives 0
  again, and DecLimit at LimitStart = 0 changes nothing.
\<close>

theorem pagination_ops:
  "IncLimit qo = qo\<lparr>LimitStart := LimitStart qo + LimitLength qo\<rparr>
   \<and> unat (LimitStart (IncLimit qo)) = (unat (LimitStart qo) + unat (LimitLength qo)) mod 2 ^ 64
   \<and> DecLimit qo = qo\<lparr>LimitStart :=
        (if LimitStart qo \<le> LimitLength qo then 0 else LimitStart qo - LimitLength qo)\<rparr>
   \<and> int (unat (LimitStart (DecLimit qo))) =
        (if LimitStart qo \<le> LimitLength qo then 0
         else int (unat (LimitStart qo)) - int (unat (LimitLength qo)))
   \<and> LimitStart (IncLimit (qo\<lparr>LimitStart := 0, LimitLength := 24\<rparr>)) = 24
   \<and> LimitStart (DecLimit (IncLimit (qo\<lparr>LimitStart := 0, LimitLength := 24\<rparr>))) = 0
   \<and> DecLimit (qo\<lparr>LimitStart := 0\<rparr>) = qo\<lparr>LimitStart := 0\<rparr>"
proof -
  have inc: "IncLimit qo = qo\<lparr>LimitStart := LimitStart qo + LimitLength qo\<rparr>"
    by (simp add: IncLimit_def)
  have inc_unat: "unat (LimitStart (IncLimit qo))
      = (unat (LimitStart qo) + unat (LimitLength qo)) mod 2 ^ 64"
    by (simp add: IncLimit_def unat_word_ariths)
  have dec: "DecLimit qo = qo\<lparr>LimitStart :=
        (if LimitStart qo \<le> LimitLength qo then 0 else LimitStart qo - LimitLength qo)\<rparr>"
  proof (cases "0 < LimitStart qo")
    case True
    then show ?thesis by (simp add: DecLimit_def)
  next
    case False
    then have z: "LimitStart qo = 0" using word_neq_0_conv by blast
    then have "qo\<lparr>LimitStart := 0\<rparr> = qo" by simp
    with z show ?thesis by (simp add: DecLimit_def)
  qed
  have dec_int: "int (unat (LimitStart (DecLimit qo))) =
        (if LimitStart qo \<le> LimitLength qo then 0
         else int (unat (LimitStart qo)) - int (unat (LimitLength qo)))"
  proof (cases "LimitStart qo \<le> LimitLength qo")
    case True
    then show ?thesis by (simp add: dec)
  next
    case False
    then have "LimitLength qo \<le> LimitStart qo" by simp
    then have "unat (LimitStart qo - LimitLength qo) = unat (LimitStart qo) - unat (LimitLength qo)"
      and "unat (LimitLength qo) \<le> unat (LimitStart qo)"
      by (simp_all add: unat_sub word_le_nat_alt)
    with False show ?thesis by (simp add: dec)
  qed
  have s1: "LimitStart (IncLimit (qo\<lparr>LimitStart := 0, LimitLength := 24\<rparr>)) = 24"
    by (simp add: IncLimit_def)
  have s2: "LimitStart (DecLimit (IncLimit (qo\<lparr>LimitStart := 0, LimitLength := 24\<rparr>))) = 0"
    by (simp add: IncLimit_def DecLimit_def)
  have s3: "DecLimit (qo\<lparr>LimitStart := 0\<rparr>) = qo\<lparr>LimitStart := 0\<rparr>"
    by (simp add: DecLimit_def)
  from inc inc_unat dec dec_int s1 s2 s3 show ?thesis by blast
qed

theorem pagination_ops_witness:
  "LimitStart (IncLimit qo_author_page2) = 48 \<and> LimitStart (DecLimit qo_author_page2) = 0"
  using pagination_ops [of qo_author_page2] by (simp add: qo_author_page2_def)

section \<open>Update: what each block reads and writes\<close>

lemma upd_guilang_frame:
  "Entity (upd_guilang r q) = Entity q" "ID (upd_guilang r q) = ID q"
  "LimitStart (upd_guilang r q) = LimitStart q" "Matching (upd_guilang r q) = Matching q"
  "VirtLib (upd_guilang r q) = VirtLib q"
  by (simp_all add: upd_guilang_def Let_def)

lemma upd_layout_frame:
  "Entity (upd_layout r q) = Entity q" "ID (upd_layout r q) = ID q"
  "LimitStart (upd_layout r q) = LimitStart q" "Matching (upd_layout r q) = Matching q"
  "VirtLib (upd_layout r q) = VirtLib q"
  by (simp_all add: upd_layout_def Let_def)

lemma upd_limitlength_frame:
  "Entity (upd_limitlength r q) = Entity q" "ID (upd_limitlength r q) = ID q"
  "Matching (upd_limitlength r q) = Matching q" "VirtLib (upd_limitlength r q) = VirtLib q"
  by (simp_all add: upd_limitlength_def DecLimit_def Let_def split: prod.splits option.splits)

lemma upd_matching_new:
  assumes "FormValue r ''matching'' \<noteq> []" "FormValue r ''matching'' \<noteq> Matching q"
  shows "upd_matching r q =
    q\<lparr>ID := 0, Matching := FormValue r ''matching'', LimitStart := 0, VirtLib := []\<rparr>"
  using assms by (simp add: upd_matching_def Let_def)

lemma upd_matching_absent:
  assumes "FormValue r ''matching'' = []"
  shows "upd_matching r q = q\<lparr>Entity := [], ID := 0, Matching := []\<rparr>"
  using assms by (simp add: upd_matching_def Let_def)

lemma upd_order_frame:
  "Entity (upd_order r q) = Entity q" "ID (upd_order r q) = ID q"
  "Matching (upd_order r q) = Matching q" "VirtLib (upd_order r q) = VirtLib q"
  "SortBy (upd_order r q) = SortBy q"
  by (simp_all add: upd_order_def Let_def)

lemma upd_order_LimitStart:
  "LimitStart (upd_order r q) = 0 \<or> LimitStart (upd_order r q) = LimitStart q"
  by (simp add: upd_order_def Let_def)

lemma upd_order_cong:
  "Descending q = Descending q' \<Longrightarrow> LimitStart q = LimitStart q' \<Longrightarrow>
   LimitStart (upd_order r q) = LimitStart (upd_order r q')"
  by (simp add: upd_order_def Let_def)

lemma upd_sortby_frame:
  "Entity (upd_sortby r q) = Entity q" "ID (upd_sortby r q) = ID q"
  "Matching (upd_sortby r q) = Matching q" "VirtLib (upd_sortby r q) = VirtLib q"
  by (simp_all add: upd_sortby_def Let_def)

lemma upd_sortby_LimitStart:
  "LimitStart (upd_sortby r q) = 0 \<or> LimitStart (upd_sortby r q) = LimitStart q"
  by (simp add: upd_sortby_def Let_def)

lemma upd_sortby_cong:
  "SortBy q = SortBy q' \<Longrightarrow> LimitStart q = LimitStart q' \<Longrightarrow>
   LimitStart (upd_sortby r q) = LimitStart (upd_sortby r q')"
  by (simp add: upd_sortby_def Let_def)

lemma upd_theme_frame:
  "Entity (upd_theme r q) = Entity q" "ID (upd_theme r q) = ID q"
  "LimitStart (upd_theme r q) = LimitStart q" "Matching (upd_theme r q) = Matching q"
  "VirtLib (upd_theme r q) = VirtLib q"
  by (simp_all add: upd_theme_def Let_def)

lemma upd_virtlib_Entity:
  "Entity (upd_virtlib g r q) =
     (if FormValue r ''virtlib'' \<noteq> [] \<and> FormValue r ''virtlib'' \<noteq> VirtLib q then []
      else Entity q)"
  by (simp add: upd_virtlib_def Let_def split: option.splits)

lemma upd_virtlib_ID:
  "ID (upd_virtlib g r q) =
     (if FormValue r ''virtlib'' \<noteq> [] \<and> FormValue r ''virtlib'' \<noteq> VirtLib q then 0
      else ID q)"
  by (simp add: upd_virtlib_def Let_def split: option.splits)

lemma upd_virtlib_LimitStart:
  "LimitStart (upd_virtlib g r q) =
     (if FormValue r ''virtlib'' \<noteq> [] \<and> FormValue r ''virtlib'' \<noteq> VirtLib q then 0
      else LimitStart q)"
  by (simp add: upd_virtlib_def Let_def split: option.splits)

lemma upd_virtlib_Matching:
  "Matching (upd_virtlib g r q) =
     (if FormValue r ''virtlib'' \<noteq> [] \<and> FormValue r ''virtlib'' \<noteq> VirtLib q then
        (case g of
           Some vlList \<Rightarrow>
             (case vlList (FormValue r ''virtlib'') of Some vldDef \<Rightarrow> vldDef | None \<Rightarrow> Matching q)
         | None \<Rightarrow> Matching q)
      else Matching q)"
  by (simp add: upd_virtlib_def Let_def split: option.splits)

lemma upd_virtlib_cong:
  "VirtLib q = VirtLib q' \<Longrightarrow> LimitStart q = LimitStart q' \<Longrightarrow>
   LimitStart (upd_virtlib g r q) = LimitStart (upd_virtlib g r q')"
  by (simp add: upd_virtlib_def Let_def split: option.splits)

lemmas upd_defs = Update_def Update_without_matching_def upd_virtlib_def upd_theme_def
  upd_sortby_def upd_order_def upd_matching_def upd_limitlength_def upd_layout_def
  upd_guilang_def FormValue_def qoLangGerman_def qoLayoutList_def qoSortByAcquisition_def
  qoThemeLight_def

section \<open>A new search text\<close>

text \<open>
  C3, as the code has it. When the request's ``matching'' value is not empty and differs
  from the current Matching, Update leaves LimitStart at 0 and ID at 0. Entity is not
  touched by that branch: after Update it is empty when the request also carries a
  non-empty ``virtlib'' value, and unchanged otherwise.
\<close>

theorem filter_reset_new_matching:
  assumes "FormValue aRequest ''matching'' \<noteq> []"
    and "FormValue aRequest ''matching'' \<noteq> Matching qo"
  shows "LimitStart (Update GetVirtLibList aRequest qo) = 0
    \<and> ID (Update GetVirtLibList aRequest qo) = 0
    \<and> Entity (Update GetVirtLibList aRequest qo) =
        (if FormValue aRequest ''virtlib'' = [] then Entity qo else [])"
proof -
  let ?q4 = "upd_limitlength aRequest (upd_layout aRequest (upd_guilang aRequest qo))"
  let ?q5 = "upd_matching aRequest ?q4"
  have m: "Matching ?q4 = Matching qo"
    by (simp add: upd_limitlength_frame upd_layout_frame upd_guilang_frame)
  have q5: "LimitStart ?q5 = 0" "ID ?q5 = 0" "VirtLib ?q5 = []" "Entity ?q5 = Entity qo"
    using assms m
    by (simp_all add: upd_matching_new upd_limitlength_frame upd_layout_frame upd_guilang_frame)
  let ?q7 = "upd_sortby aRequest (upd_order aRequest ?q5)"
  have o: "LimitStart (upd_order aRequest ?q5) = 0"
    using upd_order_LimitStart [of aRequest ?q5] q5(1) by auto
  have q7: "LimitStart ?q7 = 0"
    using upd_sortby_LimitStart [of aRequest "upd_order aRequest ?q5"] o by auto
  have q7': "ID ?q7 = 0" "VirtLib ?q7 = []" "Entity ?q7 = Entity qo"
    using q5 by (simp_all add: upd_sortby_frame upd_order_frame)
  let ?q8 = "upd_theme aRequest ?q7"
  have q8: "LimitStart ?q8 = 0" "ID ?q8 = 0" "VirtLib ?q8 = []" "Entity ?q8 = Entity qo"
    using q7 q7' by (simp_all add: upd_theme_frame)
  have u: "Update GetVirtLibList aRequest qo = upd_virtlib GetVirtLibList aRequest ?q8"
    by (simp add: Update_def)
  show ?thesis
    unfolding u using q8
    by (auto simp add: upd_virtlib_Entity upd_virtlib_ID upd_virtlib_LimitStart)
qed

theorem filter_reset_new_matching_witness:
  "LimitStart (Update None req_matching_foo qo_author_page2) = 0
   \<and> ID (Update None req_matching_foo qo_author_page2) = 0
   \<and> Entity (Update None req_matching_foo qo_author_page2) = ''author''"
proof -
  have a: "FormValue req_matching_foo ''matching'' \<noteq> []"
    by (simp add: FormValue_def req_matching_foo_def)
  have b: "FormValue req_matching_foo ''matching'' \<noteq> Matching qo_author_page2"
    by (simp add: FormValue_def req_matching_foo_def qo_author_page2_def)
  have c: "FormValue req_matching_foo ''virtlib'' = []"
    by (simp add: FormValue_def req_matching_foo_def)
  have d: "Entity qo_author_page2 = ''author''"
    by (simp add: qo_author_page2_def)
  show ?thesis
    using filter_reset_new_matching [OF a b, of None] c d by simp
qed

text \<open>
  The claim as the specification words it fails: options on the second page of an author
  listing, and a request that brings a search text and nothing else. Entity is still
  ``author'' after Update.
\<close>

theorem filter_reset_entity_counterexample:
  "LimitStart qo_author_page2 \<noteq> 0
   \<and> FormValue req_matching_foo ''matching'' \<noteq> []
   \<and> FormValue req_matching_foo ''matching'' \<noteq> Matching qo_author_page2
   \<and> Entity (Update None req_matching_foo qo_author_page2) = ''author''
   \<and> Entity (Update None req_matching_foo qo_author_page2) \<noteq> []"
  by (simp add: upd_defs req_matching_foo_def qo_author_page2_def)

section \<open>No search text\<close>

text \<open>
  C10 (as amended). When the request's ``matching'' value is absent or empty, the matching
  block of Update sets Entity to the empty string, ID to 0 and Matching to the empty
  string and leaves every other field, LimitStart among them, as it was. After the whole
  of Update Entity is empty and ID is 0. Matching is empty after the whole of Update with
  one exception: when the request's ``virtlib'' value is not empty, differs from the
  current VirtLib and names a library of the list, the ``virtlib'' block stores that
  library's definition in Matching. LimitStart is what Update without the matching block
  would leave, in particular unchanged when ``limitlength'', ``order'', ``sortby'' and
  ``virtlib'' are absent as well.
\<close>

theorem update_without_matching_param:
  assumes "FormValue aRequest ''matching'' = []"
  shows "upd_matching aRequest q = q\<lparr>Entity := [], ID := 0, Matching := []\<rparr>
    \<and> LimitStart (upd_matching aRequest q) = LimitStart q
    \<and> Entity (Update GetVirtLibList aRequest qo) = []
    \<and> ID (Update GetVirtLibList aRequest qo) = 0
    \<and> Matching (Update GetVirtLibList aRequest qo) =
        (if FormValue aRequest ''virtlib'' \<noteq> [] \<and> FormValue aRequest ''virtlib'' \<noteq> VirtLib qo
         then (case GetVirtLibList of
                 Some vlList \<Rightarrow>
                   (case vlList (FormValue aRequest ''virtlib'') of
                      Some vldDef \<Rightarrow> vldDef
                    | None \<Rightarrow> [])
               | None \<Rightarrow> [])
         else [])
    \<and> LimitStart (Update GetVirtLibList aRequest qo) =
        LimitStart (Update_without_matching GetVirtLibList aRequest qo)
    \<and> (if FormValue aRequest ''limitlength'' = [] \<and> FormValue aRequest ''order'' = []
           \<and> FormValue aRequest ''sortby'' = [] \<and> FormValue aRequest ''virtlib'' = []
        then LimitStart (Update GetVirtLibList aRequest qo) = LimitStart qo else True)"
proof -
  let ?q4 = "upd_limitlength aRequest (upd_layout aRequest (upd_guilang aRequest qo))"
  let ?q5 = "upd_matching aRequest ?q4"
  let ?q8 = "upd_theme aRequest (upd_sortby aRequest (upd_order aRequest ?q5))"
  let ?p8 = "upd_theme aRequest (upd_sortby aRequest (upd_order aRequest ?q4))"
  have step: "upd_matching aRequest q = q\<lparr>Entity := [], ID := 0, Matching := []\<rparr>"
    by (rule upd_matching_absent [OF assms])
  have step_ls: "LimitStart (upd_matching aRequest q) = LimitStart q"
    by (simp add: step)
  have a: "Descending ?q5 = Descending ?q4" "LimitStart ?q5 = LimitStart ?q4"
     "SortBy ?q5 = SortBy ?q4" "VirtLib ?q5 = VirtLib ?q4"
     "Entity ?q5 = []" "ID ?q5 = 0" "Matching ?q5 = []"
    by (simp_all add: upd_matching_absent [OF assms])
  have vl: "VirtLib ?q4 = VirtLib qo"
    by (simp add: upd_limitlength_frame upd_layout_frame upd_guilang_frame)
  have q8: "Entity ?q8 = []" "ID ?q8 = 0" "Matching ?q8 = []" "VirtLib ?q8 = VirtLib qo"
    using a vl by (simp_all add: upd_theme_frame upd_sortby_frame upd_order_frame)
  have u: "Update GetVirtLibList aRequest qo = upd_virtlib GetVirtLibList aRequest ?q8"
    by (simp add: Update_def)
  have e: "Entity (Update GetVirtLibList aRequest qo) = []"
    and i: "ID (Update GetVirtLibList aRequest qo) = 0"
    unfolding u using q8 by (simp_all add: upd_virtlib_Entity upd_virtlib_ID)
  have mt: "Matching (Update GetVirtLibList aRequest qo) =
        (if FormValue aRequest ''virtlib'' \<noteq> [] \<and> FormValue aRequest ''virtlib'' \<noteq> VirtLib qo
         then (case GetVirtLibList of
                 Some vlList \<Rightarrow>
                   (case vlList (FormValue aRequest ''virtlib'') of
                      Some vldDef \<Rightarrow> vldDef
                    | None \<Rightarrow> [])
               | None \<Rightarrow> [])
         else [])"
    unfolding u using q8 by (simp add: upd_virtlib_Matching split: option.splits)
  have b: "LimitStart (upd_order aRequest ?q5) = LimitStart (upd_order aRequest ?q4)"
    by (rule upd_order_cong [OF a(1) a(2)])
  have b': "SortBy (upd_order aRequest ?q5) = SortBy (upd_order aRequest ?q4)"
    using a by (simp add: upd_order_frame)
  have c: "LimitStart (upd_sortby aRequest (upd_order aRequest ?q5))
      = LimitStart (upd_sortby aRequest (upd_order aRequest ?q4))"
    by (rule upd_sortby_cong [OF b' b])
  have d: "LimitStart ?q8 = LimitStart ?p8" "VirtLib ?q8 = VirtLib ?p8"
    using c a by (simp_all add: upd_theme_frame upd_sortby_frame upd_order_frame)
  have ls: "LimitStart (Update GetVirtLibList aRequest qo) =
        LimitStart (Update_without_matching GetVirtLibList aRequest qo)"
    unfolding Update_def Update_without_matching_def
    by (rule upd_virtlib_cong [OF d(2) d(1)])
  have ls0: "(if FormValue aRequest ''limitlength'' = [] \<and> FormValue aRequest ''order'' = []
           \<and> FormValue aRequest ''sortby'' = [] \<and> FormValue aRequest ''virtlib'' = []
        then LimitStart (Update GetVirtLibList aRequest qo) = LimitStart qo else True)"
    using assms
    by (simp add: Update_def upd_virtlib_def upd_theme_def upd_sortby_def upd_order_def
        upd_matching_def upd_limitlength_def upd_layout_def upd_guilang_def Let_def)
  from step step_ls e i mt ls ls0 show ?thesis by blast
qed

theorem update_without_matching_param_witness:
  "Entity (Update None req_empty qo_author_page2) = []
   \<and> ID (Update None req_empty qo_author_page2) = 0
   \<and> Matching (Update None req_empty qo_author_page2) = []
   \<and> LimitStart (Update None req_empty qo_author_page2) = 24"
proof -
  have a: "FormValue req_empty ''matching'' = []"
    by (simp add: FormValue_def req_empty_def)
  have b: "FormValue req_empty ''limitlength'' = []" "FormValue req_empty ''order'' = []"
    "FormValue req_empty ''sortby'' = []" "FormValue req_empty ''virtlib'' = []"
    by (simp_all add: FormValue_def req_empty_def)
  have c: "LimitStart qo_author_page2 = 24"
    by (simp add: qo_author_page2_def)
  note t = update_without_matching_param [OF a, of qo_author_page2 None qo_author_page2]
  from t have "Entity (Update None req_empty qo_author_page2) = []"
    and "ID (Update None req_empty qo_author_page2) = 0"
    by blast+
  moreover from t b have "Matching (Update None req_empty qo_author_page2) = []"
    by simp
  moreover from t have "if FormValue req_empty ''limitlength'' = []
        \<and> FormValue req_empty ''order'' = [] \<and> FormValue req_empty ''sortby'' = []
        \<and> FormValue req_empty ''virtlib'' = []
      then LimitStart (Update None req_empty qo_author_page2) = LimitStart qo_author_page2
      else True"
    by blast
  with b c have "LimitStart (Update None req_empty qo_author_page2) = 24"
    by simp
  ultimately show ?thesis by blast
qed

text \<open>
  The claim as the specification words it fails: with no ``matching'' value and the
  ``virtlib'' value ``lib1'', Update ends with the definition of that library in
  Matching, not with the empty string.
\<close>

theorem update_virtlib_matching_counterexample:
  "FormValue req_virtlib_lib1 ''matching'' = []
   \<and> Matching (Update vl_lib1 req_virtlib_lib1 qo_author_page2) = ''series:Dune''
   \<and> Matching (Update vl_lib1 req_virtlib_lib1 qo_author_page2) \<noteq> []"
  by (simp add: upd_defs req_virtlib_lib1_def vl_lib1_def qo_author_page2_def)

section \<open>escapeQuery\<close>







section \<open>having\<close>

declare formatNat.simps [simp del]

lemma formatNat_digit: "n < 10 \<Longrightarrow> formatNat n = [digitChar n]"
  by (subst formatNat.simps) simp

lemma having_known:
  assumes "aID \<noteq> 0"
  shows "having env ''authors'' aID =
      ''JOIN books_authors_link a ON(a.book = b.id) WHERE (a.author = ''
        @ formatInt (sint aID) @ '') ''"
    and "having env ''format'' aID =
      ''JOIN data d ON(b.id = d.book) JOIN data dd ON (d.format = dd.format) WHERE (dd.id = ''
        @ formatInt (sint aID) @ '') ''"
    and "having env ''languages'' aID =
      ''JOIN books_languages_link l ON(l.book = b.id) WHERE (l.lang_code = ''
        @ formatInt (sint aID) @ '') ''"
    and "having env ''publisher'' aID =
      ''JOIN books_publishers_link p ON(p.book = b.id) WHERE (p.publisher = ''
        @ formatInt (sint aID) @ '') ''"
    and "having env ''series'' aID =
      ''JOIN books_series_link s ON(s.book = b.id) WHERE (s.series = ''
        @ formatInt (sint aID) @ '') ''"
    and "having env ''tags'' aID =
      ''JOIN books_tags_link t ON(t.book = b.id) WHERE (t.tag = ''
        @ formatInt (sint aID) @ '') ''"
  using assms
  by (simp_all add: having_def quHaving_at_def quHaving_def Sprintf_def extraArgs_def)

lemma having_none:
  "aEntity = [] \<or> aEntity = ''all'' \<or> aID = 0 \<Longrightarrow> having env aEntity aID = []"
  by (auto simp: having_def)

text \<open>
  C2, as the code has it. The table is keyed by \<open>authors\<close>, \<open>format\<close>, \<open>languages\<close>,
  \<open>publisher\<close>, \<open>series\<close> and \<open>tags\<close>: for each of these names and an id other than 0
  \<open>having\<close> returns the JOIN ... WHERE fragment of the table with the id in decimal in
  place of \<^verbatim>\<open>%d\<close>. For an empty entity, for \<open>all\<close> and for the id 0 it returns the empty
  string.
\<close>

theorem having_fragments:
  "(aID \<noteq> 0 \<longrightarrow>
      having env ''authors'' aID =
        ''JOIN books_authors_link a ON(a.book = b.id) WHERE (a.author = ''
          @ formatInt (sint aID) @ '') ''
    \<and> having env ''format'' aID =
        ''JOIN data d ON(b.id = d.book) JOIN data dd ON (d.format = dd.format) WHERE (dd.id = ''
          @ formatInt (sint aID) @ '') ''
    \<and> having env ''languages'' aID =
        ''JOIN books_languages_link l ON(l.book = b.id) WHERE (l.lang_code = ''
          @ formatInt (sint aID) @ '') ''
    \<and> having env ''publisher'' aID =
        ''JOIN books_publishers_link p ON(p.book = b.id) WHERE (p.publisher = ''
          @ formatInt (sint aID) @ '') ''
    \<and> having env ''series'' aID =
        ''JOIN books_series_link s ON(s.book = b.id) WHERE (s.series = ''
          @ formatInt (sint aID) @ '') ''
    \<and> having env ''tags'' aID =
        ''JOIN books_tags_link t ON(t.book = b.id) WHERE (t.tag = ''
          @ formatInt (sint aID) @ '') '')
   \<and> (aEntity = [] \<or> aEntity = ''all'' \<or> aID = 0 \<longrightarrow> having env aEntity aID = [])"
  using having_known [of aID env] having_none [of aEntity aID env] by blast

theorem having_fragments_witness:
  "having env_int ''tags'' 7 = ''JOIN books_tags_link t ON(t.book = b.id) WHERE (t.tag = 7) ''
   \<and> having env_int ''all'' 7 = []"
proof -
  have ne: "(7 :: go_int) \<noteq> 0" by simp
  have f: "formatInt 7 = ''7''"
    by (simp add: formatInt_def formatNat_digit digitChar_def)
  from having_fragments [where aID = 7 and env = env_int and aEntity = "''all''"] ne
  have "having env_int ''tags'' 7 =
      ''JOIN books_tags_link t ON(t.book = b.id) WHERE (t.tag = '' @ formatInt (sint (7 :: go_int)) @ '') ''"
    and "having env_int ''all'' 7 = []"
    by blast+
  then show ?thesis by (simp add: f)
qed

text \<open>
  The claim as the specification words it fails. \<open>author\<close> is one of the specification's
  names but no key of the table, so the format read from the table is empty and Sprintf
  reports the id as an extra operand; the same happens for any other name that is not a
  key. The result is neither a JOIN fragment nor the empty string.
\<close>

theorem having_author_counterexample:
  "having env_int ''author'' 5 = ''%!(EXTRA int=5)''
   \<and> having env_int ''nosuch'' 5 = ''%!(EXTRA int=5)''
   \<and> having env_int ''author'' 5 \<noteq> []"
  by (simp add: having_def quHaving_at_def quHaving_def Sprintf_def extraArgs_def formatInt_def
      formatNat_digit digitChar_def env_int_def)

section \<open>Empty results\<close>

lemma QueryBy_cases:
  "QueryBy env st ao =
     (let rCount = countRows st (by_count_query env ao)
      in if 0 < sint rCount
         then (rCount, fst (doQueryAll st (by_detail_query env ao)),
               snd (doQueryAll st (by_detail_query env ao)),
               [by_count_query env ao, by_detail_query env ao])
         else (rCount, None, None, [by_count_query env ao]))"
  by (simp add: QueryBy_def Let_def by_count_query_def by_detail_query_def split: prod.splits)

lemma QuerySearch_cases:
  "QuerySearch st ao =
     (let rCount = countRows st (search_count_query st ao)
      in if 0 < sint rCount
         then (rCount, fst (doQueryAll st (search_detail_query st ao)),
               snd (doQueryAll st (search_detail_query st ao)),
               [search_count_query st ao, search_detail_query st ao])
         else (rCount, None, Some (Error ''No documents found''), [search_count_query st ao]))"
  by (simp add: QuerySearch_def Let_def search_count_query_def search_detail_query_def split: prod.splits)

text \<open>
  C5. When the count read is zero, QueryBy returns count 0, no document list and no
  error, and QuerySearch returns count 0, no document list and the error
  ``No documents found''. In both operations the store is asked the count query first and
  the detail query after it exactly when the count is greater than zero; otherwise the
  count query is the only one.
\<close>

theorem empty_result_asymmetry:
  "(countRows st (by_count_query env ao) = 0 \<longrightarrow>
      QueryBy env st ao = (0, None, None, [by_count_query env ao]))
   \<and> (countRows st (search_count_query st ao) = 0 \<longrightarrow>
      QuerySearch st ao =
        (0, None, Some (Error ''No documents found''), [search_count_query st ao]))
   \<and> fst (QueryBy env st ao) = countRows st (by_count_query env ao)
   \<and> fst (QuerySearch st ao) = countRows st (search_count_query st ao)
   \<and> snd (snd (snd (QueryBy env st ao))) =
        (if 0 < sint (fst (QueryBy env st ao))
         then [by_count_query env ao, by_detail_query env ao] else [by_count_query env ao])
   \<and> snd (snd (snd (QuerySearch st ao))) =
        (if 0 < sint (fst (QuerySearch st ao))
         then [search_count_query st ao, search_detail_query st ao]
         else [search_count_query st ao])
   \<and> (if 0 < sint (fst (QueryBy env st ao))
       then fst (snd (QueryBy env st ao)) = fst (doQueryAll st (by_detail_query env ao))
          \<and> fst (snd (snd (QueryBy env st ao))) = snd (doQueryAll st (by_detail_query env ao))
       else fst (snd (QueryBy env st ao)) = None \<and> fst (snd (snd (QueryBy env st ao))) = None)
   \<and> (if 0 < sint (fst (QuerySearch st ao))
       then fst (snd (QuerySearch st ao)) = fst (doQueryAll st (search_detail_query st ao))
          \<and> fst (snd (snd (QuerySearch st ao))) = snd (doQueryAll st (search_detail_query st ao))
       else fst (snd (QuerySearch st ao)) = None
          \<and> fst (snd (snd (QuerySearch st ao))) = Some (Error ''No documents found''))"
  by (simp add: QueryBy_cases QuerySearch_cases Let_def)

theorem empty_result_asymmetry_witness:
  "QueryBy env_int store_no_rows qo_author_page2 =
     (0, None, None, [by_count_query env_int qo_author_page2])
   \<and> QuerySearch store_no_rows qo_author_page2 =
     (0, None, Some (Error ''No documents found''),
      [search_count_query store_no_rows qo_author_page2])"
proof -
  have c: "countRows store_no_rows q = 0" for q
    by (simp add: countRows_def store_no_rows_def)
  from empty_result_asymmetry [where env = env_int and st = store_no_rows and ao = qo_author_page2] c
  show ?thesis by blast
qed

section \<open>The decoder never fails\<close>

lemma splitLoop_nonempty: "splitLoop s sep k \<noteq> []"
  by (cases k) (simp_all split: option.splits)

lemma entityOf_total: "\<exists>ent. entityOf val = Inr ent"
proof -
  obtain x xs where "splitLoop val ''|'' (min 2 (length val + 1) - 1) = x # xs"
    using splitLoop_nonempty by (meson neq_Nil_conv)
  then show ?thesis
    by (simp add: entityOf_def SplitN_def at_def Let_def)
qed

lemma decodeLoop_total: "\<exists>r. decodeLoop list result = Inr r"
proof (induction list arbitrary: result)
  case Nil
  then show ?case by simp
next
  case (Cons val list)
  obtain ent where e: "entityOf val = Inr ent" using entityOf_total by blast
  show ?case using Cons.IH e by simp
qed

lemma prepAuthors_total: "\<exists>r. prepAuthors sortSlice s = Inr r"
proof -
  obtain r where "decodeLoop (Split s '', '') [] = Inr r" using decodeLoop_total by blast
  then show ?thesis by (simp add: prepAuthors_def)
qed

lemma Index_comma_none: "CHR '','' \<notin> set s \<Longrightarrow> Index s '', '' = None"
  by (induction s) auto

lemma splitLoop_single: "Index s sep = None \<Longrightarrow> splitLoop s sep k = [s]"
  by (cases k) simp_all

lemma Index_bar: "CHR ''|'' \<notin> set name \<Longrightarrow> Index (name @ CHR ''|'' # t) ''|'' = Some (length name)"
  by (induction name) auto

lemma entityOf_segment:
  assumes "CHR ''|'' \<notin> set name"
  shows "entityOf (name @ CHR ''|'' # t) = Inr \<lparr>ID_TEntity = fst (Atoi t), Name = name, URL = []\<rparr>"
proof -
  have "min 2 (length (name @ CHR ''|'' # t) + 1) - 1 = Suc 0" by simp
  then have "SplitN (name @ CHR ''|'' # t) ''|'' 2 = [name, t]"
    using Index_bar [OF assms, of t] by (simp add: SplitN_def)
  then show ?thesis by (simp add: entityOf_def at_def Let_def)
qed

lemma prepAuthors_segment:
  assumes "CHR ''|'' \<notin> set name" "CHR '','' \<notin> set name" "CHR '','' \<notin> set t"
  shows "prepAuthors sortSlice (name @ CHR ''|'' # t) =
    Inr [\<lparr>ID_TEntity = fst (Atoi t), Name = name, URL = []\<rparr>]"
proof -
  have "CHR '','' \<notin> set (name @ CHR ''|'' # t)" using assms by simp
  then have "Split (name @ CHR ''|'' # t) '', '' = [name @ CHR ''|'' # t]"
    unfolding Split_def by (intro splitLoop_single Index_comma_none)
  then show ?thesis
    using entityOf_segment [OF assms(1), of t] by (simp add: prepAuthors_def)
qed

lemma ParseInt_cases:
  "ParseInt s = (0, Some ErrSyntax) \<or> ParseInt s = (9223372036854775807, Some ErrRange)
   \<or> ParseInt s = (- 9223372036854775808, Some ErrRange) \<or> snd (ParseInt s) = None"
proof (cases s)
  case Nil
  then show ?thesis by (simp add: ParseInt_def)
next
  case (Cons c cs)
  define body where "body = (if c = CHR ''+'' \<or> c = CHR ''-'' then cs else c # cs)"
  obtain un err where p: "ParseUint body = (un, err)" by (cases "ParseUint body")
  have "ParseInt s =
      (if err = Some ErrSyntax then (0, Some ErrSyntax)
       else if c \<noteq> CHR ''-'' \<and> 2 ^ 63 \<le> un then (word_of_nat (2 ^ 63 - 1), Some ErrRange)
       else if c = CHR ''-'' \<and> 2 ^ 63 < un then (- word_of_nat (2 ^ 63), Some ErrRange)
       else (if c = CHR ''-'' then - word_of_nat un else word_of_nat un, None))"
    unfolding ParseInt_def Cons using p by (simp add: Let_def body_def)
  then show ?thesis by simp
qed

lemma Atoi_cases:
  "Atoi s = (0, Some ErrSyntax) \<or> Atoi s = (9223372036854775807, Some ErrRange)
   \<or> Atoi s = (- 9223372036854775808, Some ErrRange) \<or> snd (Atoi s) = None"
proof (cases "0 < length s \<and> length s < 19")
  case False
  then have "Atoi s = ParseInt s" unfolding Atoi_def by (rule if_not_P)
  then show ?thesis using ParseInt_cases [of s] by simp
next
  case True
  define s1 where "s1 = (if hd s = CHR ''-'' \<or> hd s = CHR ''+'' then tl s else s)"
  have "Atoi s =
      (if (hd s = CHR ''-'' \<or> hd s = CHR ''+'') \<and> length s1 < 1 then (0, Some ErrSyntax)
       else if \<not> list_all isDigit s1 then (0, Some ErrSyntax)
       else (if hd s = CHR ''-'' then - word_of_nat (parseDigits 0 s1)
             else word_of_nat (parseDigits 0 s1), None))"
    unfolding Atoi_def s1_def if_P [OF True] by (simp add: Let_def)
  then show ?thesis by simp
qed

lemma Atoi_syntax_zero: "snd (Atoi t) = Some ErrSyntax \<Longrightarrow> fst (Atoi t) = 0"
  using Atoi_cases [of t] by auto

lemma Atoi_range_bound:
  "snd (Atoi t) = Some ErrRange \<Longrightarrow>
   fst (Atoi t) = 9223372036854775807 \<or> fst (Atoi t) = - 9223372036854775808"
  using Atoi_cases [of t] by auto

lemmas decoder_defs = prepAuthors_def Split_def entityOf_def SplitN_def at_def Atoi_def
  ParseInt_def ParseUint_def maxUint64_def isDigit_def digitVal_def Let_def

lemma Atoi_overflow:
  "Atoi ''99999999999999999999'' = (9223372036854775807, Some ErrRange)"
  "Atoi ''99999999999999999999x'' = (9223372036854775807, Some ErrRange)"
  by (simp_all add: Atoi_def ParseInt_def ParseUint_def maxUint64_def isDigit_def digitVal_def
      Let_def)

text \<open>
  C6 (as amended). For every input the decoder returns a sequence, never a panic or an
  error. Decoding ``Name|7'' gives the one record with ID 7 and Name ``Name''; decoding
  ``Name|notanumber'' gives the one record with ID 0 and Name ``Name''; decoding the
  empty string gives the empty sequence. In general a single segment \<open>name|t\<close> without
  commas gives one record with that name whose ID is the value Atoi returns for \<open>t\<close>,
  its error dropped: 0 when Atoi reports a syntax error, and the largest or the smallest
  \<^verbatim>\<open>int\<close> when it reports a range error. So an id that cannot be parsed is made 0 only
  when its digits do not overflow.
\<close>

theorem decoder_total:
  "(\<exists>r. prepAuthors sortSlice s = Inr r)
   \<and> prepAuthors sortSlice ''Name|7'' = Inr [\<lparr>ID_TEntity = 7, Name = ''Name'', URL = []\<rparr>]
   \<and> prepAuthors sortSlice ''Name|notanumber''
       = Inr [\<lparr>ID_TEntity = 0, Name = ''Name'', URL = []\<rparr>]
   \<and> prepAuthors sortSlice [] = Inr []
   \<and> (CHR ''|'' \<notin> set name \<and> CHR '','' \<notin> set name \<and> CHR '','' \<notin> set t \<longrightarrow>
        prepAuthors sortSlice (name @ CHR ''|'' # t)
          = Inr [\<lparr>ID_TEntity = fst (Atoi t), Name = name, URL = []\<rparr>])
   \<and> (snd (Atoi t) = Some ErrSyntax \<longrightarrow> fst (Atoi t) = 0)
   \<and> (snd (Atoi t) = Some ErrRange \<longrightarrow>
        fst (Atoi t) = 9223372036854775807 \<or> fst (Atoi t) = - 9223372036854775808)"
proof -
  have "prepAuthors sortSlice ''Name|7'' = Inr [\<lparr>ID_TEntity = 7, Name = ''Name'', URL = []\<rparr>]"
    by (simp add: decoder_defs)
  moreover have "prepAuthors sortSlice ''Name|notanumber''
       = Inr [\<lparr>ID_TEntity = 0, Name = ''Name'', URL = []\<rparr>]"
    by (simp add: decoder_defs)
  moreover have "prepAuthors sortSlice [] = Inr []"
    by (simp add: decoder_defs)
  ultimately show ?thesis
    using prepAuthors_total [of sortSlice s] prepAuthors_segment [of name t sortSlice]
      Atoi_syntax_zero [of t] Atoi_range_bound [of t]
    by blast
qed

text \<open>
  Two segments: one whose id is no numeral, and one whose id is twenty digits, too many
  for 64 bits.
\<close>

theorem decoder_total_witness:
  "prepAuthors sortSlice_short ''Ann Lee|x12''
     = Inr [\<lparr>ID_TEntity = 0, Name = ''Ann Lee'', URL = []\<rparr>]
   \<and> (fst (Atoi ''99999999999999999999'') = 9223372036854775807
        \<or> fst (Atoi ''99999999999999999999'') = - 9223372036854775808)"
proof -
  have h: "CHR ''|'' \<notin> set ''Ann Lee''" "CHR '','' \<notin> set ''Ann Lee''" "CHR '','' \<notin> set ''x12''"
    by simp_all
  have e: "snd (Atoi ''x12'') = Some ErrSyntax"
    by (simp add: Atoi_def isDigit_def Let_def)
  from decoder_total [of sortSlice_short "[]" "''Ann Lee''" "''x12''"] h e
  have "prepAuthors sortSlice_short (''Ann Lee'' @ CHR ''|'' # ''x12'')
          = Inr [\<lparr>ID_TEntity = fst (Atoi ''x12''), Name = ''Ann Lee'', URL = []\<rparr>]"
    and "fst (Atoi ''x12'') = 0"
    by blast+
  then have a: "prepAuthors sortSlice_short ''Ann Lee|x12''
     = Inr [\<lparr>ID_TEntity = 0, Name = ''Ann Lee'', URL = []\<rparr>]"
    by simp
  have r: "snd (Atoi ''99999999999999999999'') = Some ErrRange"
    by (simp add: Atoi_overflow)
  from decoder_total [of sortSlice_short "[]" "[]" "''99999999999999999999''"] r
  have b: "fst (Atoi ''99999999999999999999'') = 9223372036854775807
        \<or> fst (Atoi ''99999999999999999999'') = - 9223372036854775808"
    by blast
  from a b show ?thesis by blast
qed

text \<open>
  The claim as the specification words it fails: an id that cannot be parsed is not
  always made 0. Twenty nines overflow 64 bits, Atoi returns the largest \<^verbatim>\<open>int\<close> with a
  range error, also when a letter follows the digits, and the decoder keeps that value.
\<close>

theorem decoder_overflow_counterexample:
  "snd (Atoi ''99999999999999999999'') = Some ErrRange
   \<and> prepAuthors sortSlice_short ''Name|99999999999999999999''
       = Inr [\<lparr>ID_TEntity = 9223372036854775807, Name = ''Name'', URL = []\<rparr>]
   \<and> snd (Atoi ''99999999999999999999x'') = Some ErrRange
   \<and> prepAuthors sortSlice_short ''Name|99999999999999999999x''
       = Inr [\<lparr>ID_TEntity = 9223372036854775807, Name = ''Name'', URL = []\<rparr>]
   \<and> (9223372036854775807 :: go_int) \<noteq> 0"
proof -
  have h: "CHR ''|'' \<notin> set ''Name''" "CHR '','' \<notin> set ''Name''"
    "CHR '','' \<notin> set ''99999999999999999999''" "CHR '','' \<notin> set ''99999999999999999999x''"
    by simp_all
  have a: "prepAuthors sortSlice_short ''Name|99999999999999999999''
       = Inr [\<lparr>ID_TEntity = 9223372036854775807, Name = ''Name'', URL = []\<rparr>]"
    using prepAuthors_segment [OF h(1) h(2) h(3), of sortSlice_short]
    by (simp add: Atoi_overflow)
  have b: "prepAuthors sortSlice_short ''Name|99999999999999999999x''
       = Inr [\<lparr>ID_TEntity = 9223372036854775807, Name = ''Name'', URL = []\<rparr>]"
    using prepAuthors_segment [OF h(1) h(2) h(4), of sortSlice_short]
    by (simp add: Atoi_overflow)
  have c: "(9223372036854775807 :: go_int) \<noteq> 0" by simp
  from a b c show ?thesis by (simp add: Atoi_overflow)
qed

section \<open>The order of the decoded records\<close>

declare insertionInner.simps [simp del] insertionOuter.simps [simp del] shellPass.simps [simp del]

lemma length_insr [simp]: "length (insr lessf x ys) = Suc (length ys)"
  by (induction ys) simp_all

lemma length_swap [simp]: "length (swap data i j) = length data"
  by (simp add: swap_def)

lemma insertionInner_insr:
  "j < length data \<Longrightarrow>
   insertionInner lessf data 0 j = rev (insr lessf (data ! j) (rev (take j data))) @ drop (Suc j) data"
proof (induction j arbitrary: data)
  case 0
  then show ?case
    by (subst insertionInner.simps) (cases data; simp)
next
  case (Suc k)
  let ?x = "data ! Suc k" and ?y = "data ! k"
  have tk: "rev (take (Suc k) data) = ?y # rev (take k data)"
    using Suc.prems by (simp add: take_Suc_conv_app_nth)
  show ?case
  proof (cases "lessf ?x ?y")
    case True
    let ?d = "swap data (Suc k) k"
    have k: "k < length ?d" using Suc.prems by simp
    have a: "?d ! k = ?x" "take k ?d = take k data"
      using Suc.prems by (simp_all add: swap_def)
    have b: "drop (Suc k) ?d = ?y # drop (Suc (Suc k)) data"
      using Suc.prems
      by (simp add: swap_def drop_update_swap Cons_nth_drop_Suc [symmetric] )
    have "insertionInner lessf data 0 (Suc k) = insertionInner lessf ?d 0 k"
      using True by (subst insertionInner.simps) simp
    also have "\<dots> = rev (insr lessf ?x (rev (take k data))) @ ?y # drop (Suc (Suc k)) data"
      using Suc.IH [OF k] a b by simp
    finally show ?thesis using True tk by simp
  next
    case False
    have "insertionInner lessf data 0 (Suc k) = data"
      using False by (subst insertionInner.simps) simp
    moreover have "data = take k data @ [?y, ?x] @ drop (Suc (Suc k)) data"
      using Suc.prems
      by (metis Cons_nth_drop_Suc Suc_lessD append_Cons append_Nil append_take_drop_id)
    ultimately show ?thesis using False tk by simp
  qed
qed

lemma insertionOuter_isort:
  "i \<le> length data \<Longrightarrow>
   insertionOuter lessf data 0 (length data) i = isort_acc lessf (rev (take i data)) (drop i data)"
proof (induction "length data - i" arbitrary: i data)
  case 0
  then show ?case by (subst insertionOuter.simps) simp
next
  case (Suc n)
  then have lt: "i < length data" by simp
  let ?d = "insertionInner lessf data 0 i"
  have d: "?d = rev (insr lessf (data ! i) (rev (take i data))) @ drop (Suc i) data"
    by (rule insertionInner_insr [OF lt])
  have len: "length ?d = length data"
    using lt by (simp add: d)
  have t: "take (i + 1) ?d = rev (insr lessf (data ! i) (rev (take i data)))"
    using lt by (simp add: d)
  have dr: "drop (i + 1) ?d = drop (Suc i) data"
    using lt by (simp add: d)
  have "insertionOuter lessf data 0 (length data) i = insertionOuter lessf ?d 0 (length ?d) (i + 1)"
    using lt len by (subst insertionOuter.simps) simp
  also have "\<dots> = isort_acc lessf (rev (take (i + 1) ?d)) (drop (i + 1) ?d)"
    using Suc.hyps(2) lt len by (intro Suc.hyps(1)) simp_all
  also have "\<dots> = isort_acc lessf (rev (take i data)) (data ! i # drop (Suc i) data)"
    unfolding t dr by simp
  finally show ?case using lt by (simp add: Cons_nth_drop_Suc)
qed

lemma insertionSort_func_isort:
  "insertionSort_func lessf data 0 (length data) = isort_acc lessf [] data"
proof (cases data)
  case Nil
  then show ?thesis
    by (simp add: insertionSort_func_def) (subst insertionOuter.simps, simp)
next
  case (Cons x xs)
  then show ?thesis
    using insertionOuter_isort [of 1 data lessf] by (simp add: insertionSort_func_def)
qed


lemma set_insr [simp]: "set (insr lessf x ys) = insert x (set ys)"
  by (induction ys) auto

lemma mset_insr [simp]: "mset (insr lessf x ys) = add_mset x (mset ys)"
  by (induction ys) auto

lemma sorted_insr:
  fixes f :: "'a \<Rightarrow> 'k::linorder"
  assumes "sorted (map f (rev ys))"
  shows "sorted (map f (rev (insr (\<lambda>x y. f x < f y) x ys)))"
  using assms
proof (induction ys)
  case Nil
  then show ?case by simp
next
  case (Cons y ys)
  then have s: "sorted (map f (rev ys))" and le: "\<forall>z \<in> set ys. f z \<le> f y"
    by (auto simp: sorted_append)
  show ?case
  proof (cases "f x < f y")
    case True
    then show ?thesis using Cons.IH [OF s] le by (auto simp: sorted_append)
  next
    case False
    then show ?thesis using Cons.prems by (auto simp: sorted_append)
  qed
qed

lemma filter_insr:
  fixes f :: "'a \<Rightarrow> 'k::linorder"
  shows "filter (\<lambda>z. k = f z) (rev (insr (\<lambda>x y. f x < f y) x ys))
       = filter (\<lambda>z. k = f z) (rev ys @ [x])"
  by (induction ys) auto

lemma mset_isort_acc: "mset (isort_acc lessf racc xs) = mset racc + mset xs"
  by (induction xs arbitrary: racc) simp_all

lemma sorted_isort_acc:
  fixes f :: "'a \<Rightarrow> 'k::linorder"
  shows "sorted (map f (rev racc)) \<Longrightarrow> sorted (map f (isort_acc (\<lambda>x y. f x < f y) racc xs))"
  by (induction xs arbitrary: racc) (simp_all add: sorted_insr)

lemma filter_isort_acc:
  fixes f :: "'a \<Rightarrow> 'k::linorder"
  shows "filter (\<lambda>z. k = f z) (isort_acc (\<lambda>x y. f x < f y) racc xs)
       = filter (\<lambda>z. k = f z) (rev racc @ xs)"
  by (induction xs arbitrary: racc) (simp_all add: filter_insr)

lemma isort_acc_sort_key:
  fixes f :: "'a \<Rightarrow> 'k::linorder"
  shows "isort_acc (\<lambda>x y. f x < f y) [] xs = sort_key f xs"
  by (rule properties_for_sort_key [symmetric])
     (simp_all add: mset_isort_acc sorted_isort_acc filter_isort_acc)

lemma lessName_eq: "lessName = (\<lambda>x y. Name x < Name y)"
  by (simp add: fun_eq_iff lessName_def)

lemma insertionSort_func_sort_key:
  "insertionSort_func lessName data 0 (length data) = sort_key Name data"
  by (simp add: insertionSort_func_isort lessName_eq isort_acc_sort_key)

lemma shellPass_props:
  "b \<le> length data \<Longrightarrow> 6 \<le> i \<Longrightarrow>
   mset (shellPass lessf data b i) = mset data \<and> length (shellPass lessf data b i) = length data"
proof (induction "b - i" arbitrary: i data)
  case 0
  then show ?case by (subst (1 2) shellPass.simps) simp
next
  case (Suc n)
  then have lt: "i < b" by simp
  let ?d = "if lessf (data ! i) (data ! (i - 6)) then swap data i (i - 6) else data"
  have m: "mset ?d = mset data" and l: "length ?d = length data"
    using lt Suc.prems by (auto simp: swap_def mset_swap)
  have "mset (shellPass lessf ?d b (i + 1)) = mset ?d
      \<and> length (shellPass lessf ?d b (i + 1)) = length ?d"
    using Suc.hyps(2) Suc.prems l by (intro Suc.hyps(1)) simp_all
  moreover have "shellPass lessf data b i = shellPass lessf ?d b (i + 1)"
    using lt by (subst shellPass.simps) simp
  ultimately show ?case using m l by simp
qed

lemma shellPass_short: "b \<le> i \<Longrightarrow> shellPass lessf data b i = data"
  by (subst shellPass.simps) simp

lemma sortSlice_short_upto6:
  "length data \<le> 6 \<Longrightarrow> sortSlice_short lessName data = sort_key Name data"
proof (cases "1 < length data")
  case True
  assume "length data \<le> 6"
  then show ?thesis
    using True by (simp add: sortSlice_short_def quickSort_short_def shellPass_short
        insertionSort_func_sort_key)
next
  case False
  then have "data = [] \<or> (\<exists>x. data = [x])"
    by (cases data) (auto simp: length_Suc_conv)
  then show ?thesis
    using False by (auto simp: sortSlice_short_def quickSort_short_def)
qed

lemma sortSlice_short_sorts:
  "mset (sortSlice_short lessName data) = mset data"
  "sorted (map Name (sortSlice_short lessName data))"
proof -
  let ?d = "shellPass lessName data (length data) 6"
  have p: "mset ?d = mset data" "length ?d = length data"
    using shellPass_props [of "length data" data 6 lessName] by simp_all
  have i: "insertionSort_func lessName ?d 0 (length data) = sort_key Name ?d"
    using insertionSort_func_sort_key [of ?d] p(2) by simp
  show "mset (sortSlice_short lessName data) = mset data"
    using p i by (simp add: sortSlice_short_def quickSort_short_def)
  show "sorted (map Name (sortSlice_short lessName data))"
  proof (cases "1 < length data")
    case True
    then show ?thesis using i by (simp add: sortSlice_short_def quickSort_short_def)
  next
    case False
    then have "data = [] \<or> (\<exists>x. data = [x])"
      by (cases data) (auto simp: length_Suc_conv)
    then show ?thesis using False by (auto simp: sortSlice_short_def quickSort_short_def)
  qed
qed

lemma sorted_wrt_lessName: "sorted_wrt (\<lambda>x y. \<not> lessName y x) xs = sorted (map Name xs)"
  by (simp add: sorted_map lessName_def not_less sorted_wrt_iff_nth_less sorted_iff_nth_mono_less)

lemma sortSlice_short_contract: "sortSlice_contract sortSlice_short"
  by (simp add: sortSlice_contract_def sortSlice_short_sorts sorted_wrt_lessName)

lemma sortSlice_short_insertion_upto6: "sortSlice_insertion_upto6 sortSlice_short"
  by (simp add: sortSlice_insertion_upto6_def sortSlice_short_upto6 insertionSort_func_sort_key)

lemma decodedOf_Inr: "decodeLoop (Split s '', '') [] = Inr (decodedOf s)"
  using decodeLoop_total [of "Split s '', ''" "[]"] by (auto simp: decodedOf_def)

lemma short_list_sorted:
  "\<not> 1 < length xs \<Longrightarrow> sorted (map f xs) \<and> sort_key f xs = xs"
  by (cases xs) (auto simp: length_Suc_conv)

text \<open>
  C4, as the code has it. The decoders sort with \<^verbatim>\<open>sort.Slice\<close>, which promises the same
  records in ascending order of Name and no more. For every sort that keeps that promise,
  \<open>prepAuthors\<close> and \<open>prepTags\<close> return the decoded records in ascending order of Name.
  Where the sort is insertion sort on slices of up to 6 elements, as it is in every Go
  release, a column of up to 6 records comes out in the stable order: records of equal
  Name keep the order of the column.
\<close>

theorem decoder_sorted_by_name:
  assumes "sortSlice_contract sortSlice" and "sortSlice_insertion_upto6 sortSlice"
  shows "\<exists>r. prepAuthors sortSlice s = Inr r \<and> prepTags sortSlice s = Inr r
      \<and> mset r = mset (decodedOf s) \<and> sorted (map Name r)
      \<and> (length (decodedOf s) \<le> 6 \<longrightarrow> r = sort_key Name (decodedOf s))"
proof (cases "1 < length (decodedOf s)")
  case True
  let ?r = "sortSlice lessName (decodedOf s)"
  have p: "prepAuthors sortSlice s = Inr ?r" "prepTags sortSlice s = Inr ?r"
    using True by (simp_all add: prepAuthors_def prepTags_def decodedOf_Inr)
  have m: "mset ?r = mset (decodedOf s)" and so: "sorted (map Name ?r)"
    using assms(1) by (simp_all add: sortSlice_contract_def sorted_wrt_lessName)
  have st: "length (decodedOf s) \<le> 6 \<longrightarrow> ?r = sort_key Name (decodedOf s)"
    using assms(2) by (simp add: sortSlice_insertion_upto6_def insertionSort_func_sort_key)
  from p m so st show ?thesis by blast
next
  case False
  have p: "prepAuthors sortSlice s = Inr (decodedOf s)" "prepTags sortSlice s = Inr (decodedOf s)"
    using False by (simp_all add: prepAuthors_def prepTags_def decodedOf_Inr)
  from p short_list_sorted [OF False, of Name] show ?thesis by auto
qed

lemma decodedOf_B2_A1_A3:
  "decodedOf ''B|2, A|1, A|3'' = [ent ''B'' 2, ent ''A'' 1, ent ''A'' 3]"
  by (simp add: decodedOf_def decoder_defs ent_def)

theorem decoder_sorted_by_name_witness:
  "sortSlice_contract sortSlice_short \<and> sortSlice_insertion_upto6 sortSlice_short
   \<and> prepAuthors sortSlice_short ''B|2, A|1, A|3'' = Inr [ent ''A'' 1, ent ''A'' 3, ent ''B'' 2]"
proof -
  obtain r where r: "prepAuthors sortSlice_short ''B|2, A|1, A|3'' = Inr r"
    and st: "length (decodedOf ''B|2, A|1, A|3'') \<le> 6 \<longrightarrow>
               r = sort_key Name (decodedOf ''B|2, A|1, A|3'')"
    using decoder_sorted_by_name [OF sortSlice_short_contract sortSlice_short_insertion_upto6,
        of "''B|2, A|1, A|3''"]
    by blast
  have "sort_key Name [ent ''B'' 2, ent ''A'' 1, ent ''A'' 3]
      = [ent ''A'' 1, ent ''A'' 3, ent ''B'' 2]"
    by (simp add: ent_def less_eq_char_def less_char_def)
  with r st show ?thesis
    by (simp add: decodedOf_B2_A1_A3 sortSlice_short_contract sortSlice_short_insertion_upto6)
qed

text \<open>
  The claim as the specification words it fails: the sort need not be stable. On seven
  records \<^verbatim>\<open>sort.Slice\<close> of the Go releases up to 1.18 first compares the elements
  6 apart and swaps \<open>A|7\<close> with \<open>B|1\<close>, and insertion sort then leaves \<open>B|1\<close> behind
  \<open>B|2\<close>.
\<close>

theorem decoder_stability_counterexample:
  "decodedOf ''B|1, B|2, C|3, C|4, C|5, C|6, A|7''
     = [ent ''B'' 1, ent ''B'' 2, ent ''C'' 3, ent ''C'' 4, ent ''C'' 5, ent ''C'' 6, ent ''A'' 7]
   \<and> prepAuthors sortSlice_short ''B|1, B|2, C|3, C|4, C|5, C|6, A|7''
     = Inr [ent ''A'' 7, ent ''B'' 2, ent ''B'' 1, ent ''C'' 3, ent ''C'' 4, ent ''C'' 5,
            ent ''C'' 6]"
proof -
  have d: "decodedOf ''B|1, B|2, C|3, C|4, C|5, C|6, A|7''
     = [ent ''B'' 1, ent ''B'' 2, ent ''C'' 3, ent ''C'' 4, ent ''C'' 5, ent ''C'' 6, ent ''A'' 7]"
    by (simp add: decodedOf_def decoder_defs ent_def)
  have s: "sortSlice_short lessName
       [ent ''B'' 1, ent ''B'' 2, ent ''C'' 3, ent ''C'' 4, ent ''C'' 5, ent ''C'' 6, ent ''A'' 7]
     = [ent ''A'' 7, ent ''B'' 2, ent ''B'' 1, ent ''C'' 3, ent ''C'' 4, ent ''C'' 5, ent ''C'' 6]"
    by (simp add: sortSlice_short_def quickSort_short_def insertionSort_func_def
      shellPass.simps insertionOuter.simps insertionInner.simps swap_def lessName_def ent_def
      less_eq_char_def less_char_def)
  have "prepAuthors sortSlice_short ''B|1, B|2, C|3, C|4, C|5, C|6, A|7''
     = Inr (sortSlice_short lessName (decodedOf ''B|1, B|2, C|3, C|4, C|5, C|6, A|7''))"
    using decodedOf_Inr [of "''B|1, B|2, C|3, C|4, C|5, C|6, A|7''"]
    by (simp add: prepAuthors_def d)
  with d s show ?thesis by simp
qed

section \<open>Numbers written and read back\<close>

text \<open>
  What \<^verbatim>\<open>%d\<close> and \<^verbatim>\<open>%t\<close> print is read back by \<^verbatim>\<open>Sscanf\<close> as the same value, up to the
  bar that follows it.
\<close>

lemma lt10_cases:
  "d < (10::nat) \<Longrightarrow> d = 0 \<or> d = 1 \<or> d = 2 \<or> d = 3 \<or> d = 4 \<or> d = 5 \<or> d = 6 \<or> d = 7 \<or> d = 8 \<or> d = 9"
  by arith

lemma digitChar_props:
  assumes "d < 10"
  shows "isDigit (digitChar d)" "digitVal (digitChar d) = d"
    "digitChar d \<noteq> CHR ''|''" "digitChar d \<noteq> CHR ''-''" "digitChar d \<noteq> CHR ''+''"
    "byte (digitChar d) < 0x80" "\<not> IsSpace (byte (digitChar d))"
  using lt10_cases [OF assms]
  by (elim disjE; simp add: digitChar_def isDigit_def digitVal_def byte_def IsSpace_def)+

lemma formatNat_digits: "list_all isDigit (formatNat n)"
proof (induction n rule: formatNat.induct)
  case (1 n)
  show ?case
  proof (cases "n < 10")
    case True
    then show ?thesis by (subst formatNat.simps) (simp add: digitChar_props)
  next
    case False
    then show ?thesis using 1 by (subst formatNat.simps) (simp add: digitChar_props)
  qed
qed

lemma formatNat_nonempty: "formatNat n \<noteq> []"
  by (subst formatNat.simps) simp

lemma parseDigits_append: "parseDigits a (xs @ ys) = parseDigits (parseDigits a xs) ys"
  by (induction xs arbitrary: a) simp_all

lemma parseDigits_formatNat: "parseDigits 0 (formatNat n) = n"
proof (induction n rule: formatNat.induct)
  case (1 n)
  show ?case
  proof (cases "n < 10")
    case True
    then show ?thesis by (subst formatNat.simps) (simp add: digitChar_props)
  next
    case False
    then have "parseDigits 0 (formatNat (n div 10)) = n div 10" using 1 by simp
    with False show ?thesis
      by (subst formatNat.simps) (simp add: parseDigits_append digitChar_props)
  qed
qed

lemma hd_formatNat:
  "\<exists>d ds. formatNat n = digitChar d # ds \<and> d < 10"
proof (induction n rule: formatNat.induct)
  case (1 n)
  show ?case
  proof (cases "n < 10")
    case True
    then show ?thesis by (subst formatNat.simps) auto
  next
    case False
    then obtain d ds where "formatNat (n div 10) = digitChar d # ds" "d < 10" using 1 by blast
    with False show ?thesis by (subst formatNat.simps) auto
  qed
qed

lemma takeWhile_digits:
  assumes "list_all isDigit ds" "\<not> isDigit c"
  shows "takeWhile isDigit (ds @ c # rest) = ds" "dropWhile isDigit (ds @ c # rest) = c # rest"
  using assms by (induction ds) auto

lemma bar_not_digit: "\<not> isDigit (CHR ''|'')"
  by (simp add: isDigit_def)

lemma SkipSpace_nonspace:
  "byte c < 0x80 \<Longrightarrow> \<not> IsSpace (byte c) \<Longrightarrow> SkipSpace (c # cs) = Inr (c # cs)"
  by (auto simp: DecodeRuneInString_def Let_def IsSpace_def)

lemma scanNumber_formatNat:
  "scanNumber (formatNat n @ CHR ''|'' # rest) = Inr (formatNat n, CHR ''|'' # rest)"
proof -
  obtain d ds where f: "formatNat n = digitChar d # ds" "d < 10" using hd_formatNat by blast
  have "isDigit (digitChar d)" using f(2) by (rule digitChar_props)
  then show ?thesis
    using takeWhile_digits [OF formatNat_digits bar_not_digit, of n rest] f(1)
    by (simp add: scanNumber_def)
qed

lemma scanUint_formatNat:
  assumes "n < 2 ^ bitSize" "bitSize \<le> 64"
  shows "scanUint (CHR ''d'') bitSize (formatNat n @ CHR ''|'' # rest) = Inr (n, CHR ''|'' # rest)"
proof -
  obtain d ds where f: "formatNat n = digitChar d # ds" "d < 10" using hd_formatNat by blast
  have sk: "SkipSpace (digitChar d # ds @ CHR ''|'' # rest) = Inr (digitChar d # ds @ CHR ''|'' # rest)"
    using f(2) by (intro SkipSpace_nonspace digitChar_props)
  have sn: "scanNumber (digitChar d # ds @ CHR ''|'' # rest) = Inr (digitChar d # ds, CHR ''|'' # rest)"
    using scanNumber_formatNat [of n rest] f(1) by simp
  have pd: "parseDigits 0 (digitChar d # ds) = n"
    using parseDigits_formatNat [of n] f(1) by simp
  have "(2::nat) ^ bitSize \<le> 2 ^ 64" using power_increasing [OF assms(2), of "2::nat"] by simp
  then have "n < 2 ^ 64" using assms(1) by linarith
  then show ?thesis
    using assms(1) unfolding scanUint_def f(1) append_Cons sk
    by (simp add: sn pd del: parseDigits.simps SkipSpace.simps)
qed


lemma parseDigits_mono: "a \<le> parseDigits a cs"
proof (induction cs arbitrary: a)
  case Nil
  then show ?case by simp
next
  case (Cons c cs)
  have "a \<le> a * 10 + digitVal c" by simp
  also have "\<dots> \<le> parseDigits (a * 10 + digitVal c) cs" by (rule Cons.IH)
  finally show ?case by simp
qed

lemma parseUintLoop_digits:
  "list_all isDigit cs \<Longrightarrow> parseDigits a cs \<le> maxUint64 \<Longrightarrow>
   parseUintLoop a cs = (parseDigits a cs, None)"
proof (induction cs arbitrary: a)
  case Nil
  then show ?case by simp
next
  case (Cons c cs)
  let ?n1 = "a * 10 + digitVal c"
  have d: "isDigit c" "list_all isDigit cs" using Cons.prems(1) by simp_all
  have b: "parseDigits ?n1 cs \<le> maxUint64" using Cons.prems(2) by simp
  have m: "?n1 \<le> maxUint64" using parseDigits_mono [of ?n1 cs] b by linarith
  then have "a * 10 \<le> 18446744073709551615" by (simp add: maxUint64_def)
  then have c1: "\<not> maxUint64 div 10 + 1 \<le> a" by (simp add: maxUint64_def)
  have c2: "\<not> maxUint64 < ?n1" using m by simp
  have "parseUintLoop a (c # cs) = parseUintLoop ?n1 cs"
    using d(1) c1 c2 by (simp add: Let_def)
  also have "\<dots> = (parseDigits ?n1 cs, None)" by (rule Cons.IH [OF d(2) b])
  finally show ?case by simp
qed

lemma ParseUint_formatNat:
  assumes "n \<le> maxUint64"
  shows "ParseUint (formatNat n) = (n, None)"
proof -
  have "parseUintLoop 0 (formatNat n) = (parseDigits 0 (formatNat n), None)"
    using assms by (intro parseUintLoop_digits formatNat_digits) (simp add: parseDigits_formatNat)
  then show ?thesis
    by (simp add: ParseUint_def formatNat_nonempty parseDigits_formatNat)
qed

lemma ParseInt_formatNat:
  assumes "n < 2 ^ 63"
  shows "ParseInt (formatNat n) = (word_of_nat n, None)"
proof -
  obtain d ds where f: "formatNat n = digitChar d # ds" "d < 10" using hd_formatNat by blast
  have "n \<le> maxUint64" using assms by (simp add: maxUint64_def)
  then have pu: "ParseUint (digitChar d # ds) = (n, None)"
    using ParseUint_formatNat [of n] f(1) by simp
  show ?thesis
    unfolding f(1) ParseInt_def using assms f(2)
    by (simp add: digitChar_props Let_def pu)
qed

lemma ParseInt_minus_formatNat:
  assumes "n \<le> 2 ^ 63"
  shows "ParseInt (CHR ''-'' # formatNat n) = (- word_of_nat n, None)"
proof -
  have "n \<le> maxUint64" using assms by (simp add: maxUint64_def)
  then have pu: "ParseUint (formatNat n) = (n, None)" by (rule ParseUint_formatNat)
  show ?thesis
    unfolding ParseInt_def using assms by (simp add: Let_def pu)
qed

lemma scanInt_formatInt:
  fixes w :: go_int
  shows "scanInt (CHR ''d'') (formatInt (sint w) @ CHR ''|'' # rest) = Inr (w, CHR ''|'' # rest)"
proof (cases "sint w < 0")
  case False
  let ?n = "nat (sint w)"
  obtain d ds where f: "formatNat ?n = digitChar d # ds" "d < 10" using hd_formatNat by blast
  have sk: "SkipSpace (digitChar d # ds @ CHR ''|'' # rest) = Inr (digitChar d # ds @ CHR ''|'' # rest)"
    using f(2) by (intro SkipSpace_nonspace digitChar_props)
  have sn: "scanNumber (digitChar d # ds @ CHR ''|'' # rest) = Inr (digitChar d # ds, CHR ''|'' # rest)"
    using scanNumber_formatNat [of ?n rest] f(1) by simp
  have "sint w < 2 ^ 63" using sint_lt [of w] by simp
  then have lt: "?n < 2 ^ 63" using False by (simp add: nat_less_iff)
  have "word_of_nat ?n = (word_of_int (sint w) :: go_int)"
    using False by simp
  then have v: "(word_of_nat ?n :: go_int) = w" by simp
  have at: "ParseInt (digitChar d # ds) = (w, None)"
    using ParseInt_formatNat [OF lt] f(1) v by simp
  show ?thesis
    using False f(2) unfolding formatInt_def scanInt_def
    by (simp add: f(1) sk sn at digitChar_props del: SkipSpace.simps)
next
  case True
  let ?n = "nat (- sint w)"
  have sk: "SkipSpace (CHR ''-'' # formatNat ?n @ CHR ''|'' # rest)
      = Inr (CHR ''-'' # formatNat ?n @ CHR ''|'' # rest)"
    by (intro SkipSpace_nonspace) (simp_all add: byte_def IsSpace_def)
  have "- (2 ^ 63) \<le> sint w" using sint_ge [of w] by simp
  then have le: "?n \<le> 2 ^ 63" using True by (simp add: nat_le_iff)
  have "- word_of_nat ?n = (word_of_int (sint w) :: go_int)"
    using True by simp
  then have v: "(- word_of_nat ?n :: go_int) = w" by simp
  have at: "ParseInt (CHR ''-'' # formatNat ?n) = (w, None)"
    using ParseInt_minus_formatNat [OF le] v by simp
  show ?thesis
    using True unfolding formatInt_def scanInt_def
    by (simp add: sk scanNumber_formatNat at del: SkipSpace.simps)
qed

lemma scanBool_true:
  "scanBool (CHR ''t'') (''true'' @ CHR ''|'' # rest) = Inr (True, CHR ''|'' # rest)"
  by (simp add: scanBool_def accept_def DecodeRuneInString_def byte_def IsSpace_def Let_def)

lemma scanBool_false:
  "scanBool (CHR ''t'') (''false'' @ CHR ''|'' # rest) = Inr (False, CHR ''|'' # rest)"
  by (simp add: scanBool_def accept_def DecodeRuneInString_def byte_def IsSpace_def Let_def)

section \<open>UTF-8\<close>

text \<open>
  A string that starts with a byte above 0x7F starts either with a byte that
  \<^verbatim>\<open>DecodeRuneInString\<close> reports as an error of width 1, or with the encoding of a rune
  that \<^verbatim>\<open>AppendRune\<close> writes back as the same bytes.
\<close>

lemma dm:
  fixes a z k :: nat
  assumes "z < k"
  shows "(a * k + z) div k = a" "(a * k + z) mod k = z"
  using assms by simp_all

lemma mod_offset:
  fixes a b k :: nat
  assumes "a * k \<le> b" "b < a * k + k"
  shows "b mod k = b - a * k"
proof -
  have l: "b - a * k < k" using assms by simp
  have "(a * k + (b - a * k)) mod k = b - a * k" by (rule dm(2) [OF l])
  moreover have "a * k + (b - a * k) = b" using assms(1) by simp
  ultimately show ?thesis by simp
qed

lemma cont_split:
  fixes b :: nat
  assumes "0x80 \<le> b" "b \<le> 0xBF"
  obtains y where "b = 128 + y" "y < 64" "b mod 64 = y"
proof -
  have "b = 128 + (b - 128)" "b - 128 < 64" using assms by simp_all
  moreover have "b mod 64 = b - 128" using mod_offset [of 2 64 b] assms by simp
  ultimately show ?thesis using that by blast
qed

lemma utf8_2:
  fixes b0 b1 :: nat
  assumes "0xC2 \<le> b0" "b0 \<le> 0xDF" "0x80 \<le> b1" "b1 \<le> 0xBF"
  shows "0x80 \<le> (b0 mod 32) * 64 + b1 mod 64" "(b0 mod 32) * 64 + b1 mod 64 \<le> 0x7FF"
    "0xC0 + ((b0 mod 32) * 64 + b1 mod 64) div 64 = b0"
    "0x80 + ((b0 mod 32) * 64 + b1 mod 64) mod 64 = b1"
proof -
  obtain y where y: "b1 = 128 + y" "y < 64" "b1 mod 64 = y" using cont_split assms(3,4) by blast
  have x: "b0 mod 32 = b0 - 192" using mod_offset [of 6 32 b0] assms(1,2) by simp
  have x2: "2 \<le> b0 - 192" "b0 - 192 < 32" using assms(1,2) by simp_all
  show "0x80 \<le> (b0 mod 32) * 64 + b1 mod 64" using x x2 by simp
  show "(b0 mod 32) * 64 + b1 mod 64 \<le> 0x7FF" using x x2 y by simp
  show "0xC0 + ((b0 mod 32) * 64 + b1 mod 64) div 64 = b0"
    unfolding x y(3) using dm(1) [OF y(2), of "b0 - 192"] assms(1) by simp
  show "0x80 + ((b0 mod 32) * 64 + b1 mod 64) mod 64 = b1"
    unfolding x y(3) using dm(2) [OF y(2), of "b0 - 192"] y(1) by simp
qed

lemma utf8_3:
  fixes b0 b1 b2 :: nat
  assumes "0xE0 \<le> b0" "b0 \<le> 0xEF" "(if b0 = 0xE0 then 0xA0 else 0x80) \<le> b1"
    "b1 \<le> (if b0 = 0xED then 0x9F else 0xBF)" "0x80 \<le> b2" "b2 \<le> 0xBF"
  defines "r \<equiv> (b0 mod 16) * 4096 + (b1 mod 64) * 64 + b2 mod 64"
  shows "0x800 \<le> r" "r \<le> 0xFFFF" "r < 0xD800 \<or> 0xDFFF < r"
    "0xE0 + r div 4096 = b0" "0x80 + (r div 64) mod 64 = b1" "0x80 + r mod 64 = b2"
proof -
  have b1r: "0x80 \<le> b1" "b1 \<le> 0xBF" using assms(3,4) by (auto split: if_splits)
  obtain y where y: "b1 = 128 + y" "y < 64" "b1 mod 64 = y" using cont_split b1r by blast
  obtain z where z: "b2 = 128 + z" "z < 64" "b2 mod 64 = z" using cont_split assms(5,6) by blast
  define x where "x = b0 - 224"
  have x: "b0 mod 16 = x" "x < 16" "b0 = 224 + x"
    using mod_offset [of 14 16 b0] assms(1,2) unfolding x_def by simp_all
  have r: "r = (x * 64 + y) * 64 + z" unfolding r_def x(1) y(3) z(3) by simp
  have yz: "y * 64 + z < 4096" using y(2) z(2) by simp
  have r': "r = x * 4096 + (y * 64 + z)" unfolding r by simp
  have d64: "r div 64 = x * 64 + y" unfolding r by (rule dm(1) [OF z(2)])
  have "r mod 64 = z" unfolding r by (rule dm(2) [OF z(2)])
  then show "0x80 + r mod 64 = b2" using z(1) by simp
  have "(r div 64) mod 64 = y" unfolding d64 by (rule dm(2) [OF y(2)])
  then show "0x80 + (r div 64) mod 64 = b1" using y(1) by simp
  have "r div 4096 = x" unfolding r' by (rule dm(1) [OF yz])
  then show "0xE0 + r div 4096 = b0" using x(3) by simp
  have ylow: "b0 = 0xE0 \<longrightarrow> 32 \<le> y" using assms(3) y(1) by auto
  have yhigh: "b0 = 0xED \<longrightarrow> y < 32" using assms(4) y(1) by auto
  show "0x800 \<le> r"
  proof (cases "x = 0")
    case True
    then have "32 \<le> y" using ylow x(3) by simp
    then show ?thesis unfolding r' by simp
  next
    case False
    then have "1 \<le> x" by simp
    then have "4096 \<le> x * 4096" by simp
    then show ?thesis unfolding r' by simp
  qed
  have "x * 4096 \<le> 15 * 4096" using x(2) by simp
  then show "r \<le> 0xFFFF" unfolding r' using yz by simp
  show "r < 0xD800 \<or> 0xDFFF < r"
  proof -
    consider "x < 13" | "x = 13" | "13 < x" by linarith
    then show ?thesis
    proof cases
      case 1
      then have "x * 4096 \<le> 12 * 4096" by simp
      then show ?thesis unfolding r' using yz by simp
    next
      case 2
      then have "y < 32" using yhigh x(3) by simp
      then have "y * 64 + z < 2048" using z(2) by simp
      then show ?thesis unfolding r' using 2 by simp
    next
      case 3
      then have "14 * 4096 \<le> x * 4096" by simp
      then show ?thesis unfolding r' by simp
    qed
  qed
qed

lemma utf8_4:
  fixes b0 b1 b2 b3 :: nat
  assumes "0xF0 \<le> b0" "b0 \<le> 0xF4" "(if b0 = 0xF0 then 0x90 else 0x80) \<le> b1"
    "b1 \<le> (if b0 = 0xF4 then 0x8F else 0xBF)" "0x80 \<le> b2" "b2 \<le> 0xBF" "0x80 \<le> b3" "b3 \<le> 0xBF"
  defines "r \<equiv> (b0 mod 8) * 262144 + (b1 mod 64) * 4096 + (b2 mod 64) * 64 + b3 mod 64"
  shows "0x10000 \<le> r" "r \<le> 0x10FFFF"
    "0xF0 + r div 262144 = b0" "0x80 + (r div 4096) mod 64 = b1"
    "0x80 + (r div 64) mod 64 = b2" "0x80 + r mod 64 = b3"
proof -
  have b1r: "0x80 \<le> b1" "b1 \<le> 0xBF" using assms(3,4) by (auto split: if_splits)
  obtain y where y: "b1 = 128 + y" "y < 64" "b1 mod 64 = y" using cont_split b1r by blast
  obtain z where z: "b2 = 128 + z" "z < 64" "b2 mod 64 = z" using cont_split assms(5,6) by blast
  obtain u where u: "b3 = 128 + u" "u < 64" "b3 mod 64 = u" using cont_split assms(7,8) by blast
  define x where "x = b0 - 240"
  have x: "b0 mod 8 = x" "x < 5" "b0 = 240 + x"
    using mod_offset [of 30 8 b0] assms(1,2) unfolding x_def by simp_all
  have r: "r = ((x * 64 + y) * 64 + z) * 64 + u" unfolding r_def x(1) y(3) z(3) u(3) by simp
  have zu: "z * 64 + u < 4096" using z(2) u(2) by simp
  have yzu: "(y * 64 + z) * 64 + u < 262144" using y(2) z(2) u(2) by simp
  have r1: "r = (x * 64 + y) * 4096 + (z * 64 + u)" unfolding r by simp
  have r2: "r = x * 262144 + ((y * 64 + z) * 64 + u)" unfolding r by simp
  have d64: "r div 64 = (x * 64 + y) * 64 + z" unfolding r by (rule dm(1) [OF u(2)])
  have d4096: "r div 4096 = x * 64 + y" unfolding r1 by (rule dm(1) [OF zu])
  have "r mod 64 = u" unfolding r by (rule dm(2) [OF u(2)])
  then show "0x80 + r mod 64 = b3" using u(1) by simp
  have "(r div 64) mod 64 = z" unfolding d64 by (rule dm(2) [OF z(2)])
  then show "0x80 + (r div 64) mod 64 = b2" using z(1) by simp
  have "(r div 4096) mod 64 = y" unfolding d4096 by (rule dm(2) [OF y(2)])
  then show "0x80 + (r div 4096) mod 64 = b1" using y(1) by simp
  have "r div 262144 = x" unfolding r2 by (rule dm(1) [OF yzu])
  then show "0xF0 + r div 262144 = b0" using x(3) by simp
  have ylow: "b0 = 0xF0 \<longrightarrow> 16 \<le> y" using assms(3) y(1) by auto
  have yhigh: "b0 = 0xF4 \<longrightarrow> y < 16" using assms(4) y(1) by auto
  show "0x10000 \<le> r"
  proof (cases "x = 0")
    case True
    then have "16 \<le> y" using ylow x(3) by simp
    then have "16 * 4096 \<le> y * 4096" by simp
    then show ?thesis unfolding r1 by simp
  next
    case False
    then have "1 \<le> x" by simp
    then have "262144 \<le> x * 262144" by simp
    then show ?thesis unfolding r2 by simp
  qed
  show "r \<le> 0x10FFFF"
  proof (cases "x = 4")
    case True
    then have "y < 16" using yhigh x(3) by simp
    then have "y * 4096 \<le> 15 * 4096" by simp
    then show ?thesis unfolding r1 using True zu by simp
  next
    case False
    then have "x \<le> 3" using x(2) by simp
    then have "x * 262144 \<le> 3 * 262144" by simp
    then show ?thesis unfolding r2 using yzu by simp
  qed
qed


lemma char_of_byte [simp]: "char_of (byte c) = c"
  by (simp add: byte_def)

lemma byte_lt_256 [simp]: "byte c < 256"
  by (simp add: byte_def)

lemma mb2:
  assumes "0xC2 \<le> byte c0" "byte c0 \<le> 0xDF" "isCont (byte c1)"
  shows "multibyte ((byte c0 mod 32) * 64 + byte c1 mod 64) [c0, c1]"
proof -
  have c: "0x80 \<le> byte c1" "byte c1 \<le> 0xBF" using assms(3) by (simp_all add: isCont_def)
  note u = utf8_2 [OF assms(1,2) c]
  have a: "AppendRune ((byte c0 mod 32) * 64 + byte c1 mod 64) = [c0, c1]"
    using u(1,2) unfolding AppendRune_def u(3) u(4)
    by (simp del: char_of_byte) (simp add: u(3) u(4))
  have d: "DecodeRuneInString ([c0, c1] @ more) = ((byte c0 mod 32) * 64 + byte c1 mod 64, length [c0, c1])" for more
    using assms by (simp add: DecodeRuneInString_def Let_def)
  have v: "ValidRune ((byte c0 mod 32) * 64 + byte c1 mod 64)"
    using u(2) by (simp add: ValidRune_def)
  show ?thesis
    unfolding multibyte_def using a d v u(1) assms(1) c(1) by auto
qed


lemma mb3:
  assumes "0xE0 \<le> byte c0" "byte c0 \<le> 0xEF"
    "(if byte c0 = 0xE0 then 0xA0 else 0x80) \<le> byte c1"
    "byte c1 \<le> (if byte c0 = 0xED then 0x9F else 0xBF)" "isCont (byte c2)"
  shows "multibyte ((byte c0 mod 16) * 4096 + (byte c1 mod 64) * 64 + byte c2 mod 64) [c0, c1, c2]"
proof -
  let ?r = "(byte c0 mod 16) * 4096 + (byte c1 mod 64) * 64 + byte c2 mod 64"
  have c: "0x80 \<le> byte c2" "byte c2 \<le> 0xBF" using assms(5) by (simp_all add: isCont_def)
  have c1: "0x80 \<le> byte c1" using assms(3) by (auto split: if_splits)
  note u = utf8_3 [OF assms(1,2,3,4) c]
  have v: "ValidRune ?r" using u(2,3) by (auto simp: ValidRune_def)
  have a: "AppendRune ?r = [char_of (0xE0 + ?r div 4096), char_of (0x80 + (?r div 64) mod 64),
      char_of (0x80 + ?r mod 64)]"
    using u(1,2) v unfolding AppendRune_def by simp
  have a': "AppendRune ?r = [c0, c1, c2]"
    unfolding a u(4) u(5) u(6) by simp
  have d: "DecodeRuneInString ([c0, c1, c2] @ more) = (?r, length [c0, c1, c2])" for more
    using assms by (simp add: DecodeRuneInString_def Let_def)
  have "0x80 \<le> ?r" using u(1) by simp
  then show ?thesis
    unfolding multibyte_def using a' d v assms(1) c(1) c1 by auto
qed

lemma mb4:
  assumes "0xF0 \<le> byte c0" "byte c0 \<le> 0xF4"
    "(if byte c0 = 0xF0 then 0x90 else 0x80) \<le> byte c1"
    "byte c1 \<le> (if byte c0 = 0xF4 then 0x8F else 0xBF)" "isCont (byte c2)" "isCont (byte c3)"
  shows "multibyte ((byte c0 mod 8) * 262144 + (byte c1 mod 64) * 4096 + (byte c2 mod 64) * 64
           + byte c3 mod 64) [c0, c1, c2, c3]"
proof -
  let ?r = "(byte c0 mod 8) * 262144 + (byte c1 mod 64) * 4096 + (byte c2 mod 64) * 64
           + byte c3 mod 64"
  have c2: "0x80 \<le> byte c2" "byte c2 \<le> 0xBF" using assms(5) by (simp_all add: isCont_def)
  have c3: "0x80 \<le> byte c3" "byte c3 \<le> 0xBF" using assms(6) by (simp_all add: isCont_def)
  have c1: "0x80 \<le> byte c1" using assms(3) by (auto split: if_splits)
  note u = utf8_4 [OF assms(1,2,3,4) c2 c3]
  have v: "ValidRune ?r" using u(1,2) by (auto simp: ValidRune_def)
  have a: "AppendRune ?r = [char_of (0xF0 + ?r div 262144), char_of (0x80 + (?r div 4096) mod 64),
      char_of (0x80 + (?r div 64) mod 64), char_of (0x80 + ?r mod 64)]"
    using u(1,2) v unfolding AppendRune_def by simp
  have a': "AppendRune ?r = [c0, c1, c2, c3]"
    unfolding a u(3) u(4) u(5) u(6) by simp
  have d: "DecodeRuneInString ([c0, c1, c2, c3] @ more) = (?r, length [c0, c1, c2, c3])" for more
    using assms by (simp add: DecodeRuneInString_def Let_def)
  have "0x80 \<le> ?r" using u(1) by simp
  then show ?thesis
    unfolding multibyte_def using a' d v assms(1) c2(1) c3(1) c1 by auto
qed

lemma decode_cases:
  assumes "0x80 \<le> byte c"
  shows "DecodeRuneInString (c # cs) = (RuneError, 1)
     \<or> (\<exists>r bs rest. c # cs = bs @ rest \<and> multibyte r bs
           \<and> DecodeRuneInString (c # cs) = (r, length bs))"
proof -
  consider (two) "0xC2 \<le> byte c" "byte c \<le> 0xDF"
    | (three) "0xE0 \<le> byte c" "byte c \<le> 0xEF"
    | (four) "0xF0 \<le> byte c" "byte c \<le> 0xF4"
    | (none) "byte c < 0xC2 \<or> 0xF4 < byte c"
    by linarith
  then show ?thesis
  proof cases
    case none
    then have "DecodeRuneInString (c # cs) = (RuneError, 1)"
      using assms by (auto simp: DecodeRuneInString_def Let_def)
    then show ?thesis by simp
  next
    case two
    show ?thesis
    proof (cases cs)
      case Nil
      then show ?thesis using two assms by (simp add: DecodeRuneInString_def Let_def)
    next
      case (Cons c1 cs1)
      show ?thesis
      proof (cases "isCont (byte c1)")
        case False
        then show ?thesis using two assms Cons by (simp add: DecodeRuneInString_def Let_def)
      next
        case True
        note m = mb2 [OF two True]
        have "c # cs = [c, c1] @ cs1" using Cons by simp
        moreover have "DecodeRuneInString (c # cs) = ((byte c mod 32) * 64 + byte c1 mod 64, length [c, c1])"
          using two True Cons by (simp add: DecodeRuneInString_def Let_def)
        ultimately show ?thesis using m by blast
      qed
    qed
  next
    case three
    show ?thesis
    proof (cases cs)
      case Nil
      then show ?thesis using three assms by (simp add: DecodeRuneInString_def Let_def)
    next
      case c1: (Cons c1 cs1)
      show ?thesis
      proof (cases cs1)
        case Nil
        then show ?thesis using three assms c1 by (simp add: DecodeRuneInString_def Let_def)
      next
        case c2: (Cons c2 cs2)
        show ?thesis
        proof (cases "(if byte c = 0xE0 then 0xA0 else 0x80) \<le> byte c1
            \<and> byte c1 \<le> (if byte c = 0xED then 0x9F else 0xBF) \<and> isCont (byte c2)")
          case False
          then have "DecodeRuneInString (c # cs) = (RuneError, 1)"
            using three assms c1 c2 unfolding DecodeRuneInString_def Let_def by simp
          then show ?thesis by simp
        next
          case True
          then have h: "(if byte c = 0xE0 then 0xA0 else 0x80) \<le> byte c1"
            "byte c1 \<le> (if byte c = 0xED then 0x9F else 0xBF)" "isCont (byte c2)"
            by blast+
          note m = mb3 [OF three h]
          have "c # cs = [c, c1, c2] @ cs2" using c1 c2 by simp
          moreover have "DecodeRuneInString (c # cs) =
              ((byte c mod 16) * 4096 + (byte c1 mod 64) * 64 + byte c2 mod 64, length [c, c1, c2])"
            using three True c1 c2 unfolding DecodeRuneInString_def Let_def by simp
          ultimately show ?thesis using m by blast
        qed
      qed
    qed
  next
    case four
    show ?thesis
    proof (cases cs)
      case Nil
      then show ?thesis using four assms by (simp add: DecodeRuneInString_def Let_def)
    next
      case c1: (Cons c1 cs1)
      show ?thesis
      proof (cases cs1)
        case Nil
        then show ?thesis using four assms c1 by (simp add: DecodeRuneInString_def Let_def)
      next
        case c2: (Cons c2 cs2)
        show ?thesis
        proof (cases cs2)
          case Nil
          then show ?thesis using four assms c1 c2 by (simp add: DecodeRuneInString_def Let_def)
        next
          case c3: (Cons c3 cs3)
          show ?thesis
          proof (cases "(if byte c = 0xF0 then 0x90 else 0x80) \<le> byte c1
              \<and> byte c1 \<le> (if byte c = 0xF4 then 0x8F else 0xBF)
              \<and> isCont (byte c2) \<and> isCont (byte c3)")
            case False
            then have "DecodeRuneInString (c # cs) = (RuneError, 1)"
              using four assms c1 c2 c3 unfolding DecodeRuneInString_def Let_def by simp
            then show ?thesis by simp
          next
            case True
            then have h: "(if byte c = 0xF0 then 0x90 else 0x80) \<le> byte c1"
              "byte c1 \<le> (if byte c = 0xF4 then 0x8F else 0xBF)" "isCont (byte c2)"
              "isCont (byte c3)"
              by blast+
            note m = mb4 [OF four h]
            have "c # cs = [c, c1, c2, c3] @ cs3" using c1 c2 c3 by simp
            moreover have "DecodeRuneInString (c # cs) =
                ((byte c mod 8) * 262144 + (byte c1 mod 64) * 4096 + (byte c2 mod 64) * 64
                   + byte c3 mod 64, length [c, c1, c2, c3])"
              using four True c1 c2 c3 unfolding DecodeRuneInString_def Let_def by simp
            ultimately show ?thesis using m by blast
          qed
        qed
      qed
    qed
  qed
qed

section \<open>Strings written by Quote and read back\<close>

text \<open>
  \<^verbatim>\<open>Quote\<close> writes every string chunk by chunk (\<open>encodes_quoteLoop\<close>); the scanner of
  \<^verbatim>\<open>%q\<close> collects a text made of chunks up to the closing quote (\<open>encodes_doublequoted\<close>),
  and \<^verbatim>\<open>Unquote\<close> turns it back into the string (\<open>encodes_unquoteLoop\<close>, \<open>encodes_fast\<close>).
\<close>

declare doublequoted.simps [simp del]

lemma lt16_cases:
  "d < (16::nat) \<Longrightarrow> d = 0 \<or> d = 1 \<or> d = 2 \<or> d = 3 \<or> d = 4 \<or> d = 5 \<or> d = 6 \<or> d = 7 \<or> d = 8
     \<or> d = 9 \<or> d = 10 \<or> d = 11 \<or> d = 12 \<or> d = 13 \<or> d = 14 \<or> d = 15"
  by arith

lemma lowerhex_props:
  assumes "d < 16"
  shows "unhex (lowerhex d) = Some d" "plain (lowerhex d)"
  using lt16_cases [OF assms]
  by (elim disjE; simp add: lowerhex_def unhex_def plain_def byte_def chr_dquote_def
      chr_backslash_def chr_newline_def)+

lemma length_hexN [simp]: "length (hexN k r) = k"
  by (induction k arbitrary: r) simp_all

lemma plain_hexN: "list_all plain (hexN k r)"
  by (induction k arbitrary: r) (simp_all add: lowerhex_props)

lemma unhexAll_append:
  "unhexAll v (xs @ ys) = (case unhexAll v xs of None \<Rightarrow> None | Some v' \<Rightarrow> unhexAll v' ys)"
  by (induction xs arbitrary: v) (simp_all split: option.splits)

lemma unhexAll_hexN: "unhexAll v (hexN k r) = Some (v * 16 ^ k + r mod 16 ^ k)"
proof (induction k arbitrary: r)
  case 0
  then show ?case by simp
next
  case (Suc k)
  have "r mod (16 * 16 ^ k) = 16 * ((r div 16) mod 16 ^ k) + r mod 16"
    by (simp add: mod_mult2_eq)
  then show ?case
    by (simp add: unhexAll_append Suc lowerhex_props algebra_simps)
qed

lemma unhexAll_hexN_exact: "r < 16 ^ k \<Longrightarrow> unhexAll 0 (hexN k r) = Some r"
  by (simp add: unhexAll_hexN)

lemma decode_ascii: "byte c < 0x80 \<Longrightarrow> DecodeRuneInString (c # cs) = (byte c, 1)"
  by (simp add: DecodeRuneInString_def Let_def)

lemma AppendRune_ascii: "byte c < 0x80 \<Longrightarrow> AppendRune (byte c) = [c]"
  by (simp add: AppendRune_def)

lemma doublequoted_plain:
  "plain c \<Longrightarrow> doublequoted buf (c # sfx) = doublequoted (buf @ [c]) sfx"
  by (subst doublequoted.simps) (simp add: plain_def decode_ascii AppendRune_ascii)

lemma doublequoted_plains:
  "list_all plain ds \<Longrightarrow> doublequoted buf (ds @ sfx) = doublequoted (buf @ ds) sfx"
  by (induction ds arbitrary: buf) (simp_all add: doublequoted_plain)

lemma doublequoted_escape:
  "byte e < 0x80 \<Longrightarrow>
   doublequoted buf (chr_backslash # e # sfx) = doublequoted (buf @ [chr_backslash, e]) sfx"
proof -
  assume e: "byte e < 0x80"
  have b: "byte chr_backslash < 0x80" by (simp add: chr_backslash_def byte_def)
  show ?thesis
    by (subst doublequoted.simps) (simp add: decode_ascii [OF b] decode_ascii [OF e]
        AppendRune_ascii [OF b] AppendRune_ascii [OF e])
qed

lemma doublequoted_multibyte:
  assumes "multibyte r bs"
  shows "doublequoted buf (bs @ sfx) = doublequoted (buf @ bs) sfx"
proof -
  from assms obtain c cs where bs: "bs = c # cs" and len: "2 \<le> length bs"
    by (cases bs) (auto simp: multibyte_def)
  have d: "DecodeRuneInString (c # cs @ sfx) = (r, length bs)"
    using assms bs by (auto simp: multibyte_def)
  have c: "0x80 \<le> byte c" using assms bs by (auto simp: multibyte_def)
  then have ne: "c \<noteq> chr_backslash" "c \<noteq> chr_dquote"
    by (auto simp: chr_backslash_def chr_dquote_def byte_def)
  have a: "AppendRune r = bs" using assms by (simp add: multibyte_def)
  have "doublequoted buf (c # cs @ sfx) = doublequoted (buf @ AppendRune r) (drop (length bs - 1) (cs @ sfx))"
    by (subst doublequoted.simps) (simp add: d ne)
  then show ?thesis using bs a by simp
qed

lemma simple_escape_ascii: "simple_escape c e \<Longrightarrow> byte e < 0x80"
  by (auto simp: simple_escape_def byte_def chr_dquote_def chr_backslash_def)

lemma chunk_doublequoted:
  "chunk bs esc \<Longrightarrow> doublequoted buf (esc @ sfx) = doublequoted (buf @ esc) sfx"
proof (induction rule: chunk.induct)
  case (raw_ascii c)
  then show ?case by (simp add: doublequoted_plain)
next
  case (raw_rune r bs)
  then show ?case by (rule doublequoted_multibyte)
next
  case (esc_simple c e)
  then show ?case by (simp add: doublequoted_escape simple_escape_ascii)
next
  case (esc_x c)
  have "byte (CHR ''x'') < 0x80" by (simp add: byte_def)
  then show ?case
    using doublequoted_plains [OF plain_hexN, of "buf @ [chr_backslash, CHR ''x'']" 2 "byte c" sfx]
    by (simp add: doublequoted_escape del: hexN.simps)
next
  case (esc_u r bs)
  have "byte (CHR ''u'') < 0x80" by (simp add: byte_def)
  then show ?case
    using doublequoted_plains [OF plain_hexN, of "buf @ [chr_backslash, CHR ''u'']" 4 r sfx]
    by (simp add: doublequoted_escape del: hexN.simps)
next
  case (esc_U r bs)
  have "byte (CHR ''U'') < 0x80" by (simp add: byte_def)
  then show ?case
    using doublequoted_plains [OF plain_hexN, of "buf @ [chr_backslash, CHR ''U'']" 8 r sfx]
    by (simp add: doublequoted_escape del: hexN.simps)
qed

lemma chunk_shape:
  "chunk bs esc \<Longrightarrow>
   (\<exists>t. esc = chr_backslash # t) \<or> (esc = bs \<and> chr_dquote \<notin> set bs \<and> chr_backslash \<notin> set bs)"
proof (induction rule: chunk.induct)
  case (raw_ascii c)
  then show ?case by (auto simp: plain_def)
next
  case (raw_rune r bs)
  then have "\<forall>b\<in>set bs. 0x80 \<le> byte b" by (simp add: multibyte_def)
  then have "chr_dquote \<notin> set bs" "chr_backslash \<notin> set bs"
    by (auto simp: chr_dquote_def chr_backslash_def byte_def)
  then show ?case by simp
qed simp_all

lemma encodes_doublequoted:
  "encodes s Q \<Longrightarrow> doublequoted buf (Q @ chr_dquote # rest) = Inr (buf @ Q @ [chr_dquote], rest)"
proof (induction arbitrary: buf rule: encodes.induct)
  case enc_Nil
  have b: "byte chr_dquote < 0x80" by (simp add: chr_dquote_def byte_def)
  have "chr_dquote \<noteq> chr_backslash" by (simp add: chr_dquote_def chr_backslash_def)
  then show ?case
    by (subst doublequoted.simps) (simp add: decode_ascii [OF b] AppendRune_ascii [OF b])
next
  case (enc_Cons bs esc s Q)
  show ?case
    using chunk_doublequoted [OF enc_Cons.hyps(1), of buf "Q @ chr_dquote # rest"]
      enc_Cons.IH [of "buf @ esc"]
    by simp
qed

lemma encodes_fast:
  "encodes s Q \<Longrightarrow> chr_backslash \<notin> set (takeWhile (\<lambda>c. c \<noteq> chr_dquote) (Q @ [chr_dquote])) \<Longrightarrow>
   Q = s \<and> chr_dquote \<notin> set Q"
proof (induction rule: encodes.induct)
  case enc_Nil
  then show ?case by simp
next
  case (enc_Cons bs esc s Q)
  have ne: "chr_backslash \<noteq> chr_dquote" by (simp add: chr_dquote_def chr_backslash_def)
  from chunk_shape [OF enc_Cons.hyps(1)] show ?case
  proof
    assume "\<exists>t. esc = chr_backslash # t"
    then obtain t where "esc = chr_backslash # t" by blast
    then have "chr_backslash \<in> set (takeWhile (\<lambda>c. c \<noteq> chr_dquote) ((esc @ Q) @ [chr_dquote]))"
      using ne by simp
    then show ?thesis using enc_Cons.prems by simp
  next
    assume r: "esc = bs \<and> chr_dquote \<notin> set bs \<and> chr_backslash \<notin> set bs"
    then have "takeWhile (\<lambda>c. c \<noteq> chr_dquote) ((esc @ Q) @ [chr_dquote])
        = bs @ takeWhile (\<lambda>c. c \<noteq> chr_dquote) (Q @ [chr_dquote])"
      by (auto intro!: takeWhile_append2)
    then have "chr_backslash \<notin> set (takeWhile (\<lambda>c. c \<noteq> chr_dquote) (Q @ [chr_dquote]))"
      using enc_Cons.prems by simp
    then have "Q = s \<and> chr_dquote \<notin> set Q" by (rule enc_Cons.IH)
    with r show ?thesis by auto
  qed
qed

lemma char_of_nat_numeral:
  "char_of (7::nat) = CHR 0x07" "char_of (8::nat) = CHR 0x08" "char_of (12::nat) = CHR 0x0C"
  "char_of (10::nat) = CHR 0x0A" "char_of (13::nat) = CHR 0x0D" "char_of (9::nat) = CHR 0x09"
  "char_of (11::nat) = CHR 0x0B" "char_of (0x5C::nat) = CHR 0x5C" "char_of (0x22::nat) = CHR 0x22"
  by (simp_all add: char_of_eq_iff take_bit_eq_mod)

lemma UnquoteChar_plain: "plain c \<Longrightarrow> UnquoteChar (c # sfx) = Inr (byte c, False, 1)"
  by (simp add: UnquoteChar_def plain_def RuneSelf_def)

lemma UnquoteChar_multibyte:
  assumes "multibyte r bs"
  shows "UnquoteChar (bs @ sfx) = Inr (r, True, length bs)"
proof -
  from assms obtain c cs where bs: "bs = c # cs" by (cases bs) (auto simp: multibyte_def)
  have d: "DecodeRuneInString (c # cs @ sfx) = (r, length bs)"
    using assms bs by (auto simp: multibyte_def)
  have c: "0x80 \<le> byte c" using assms bs by (auto simp: multibyte_def)
  then have ne: "c \<noteq> chr_dquote" by (auto simp: chr_dquote_def byte_def)
  show ?thesis using c ne d by (simp add: bs UnquoteChar_def RuneSelf_def)
qed

lemma UnquoteChar_backslash:
  "UnquoteChar (chr_backslash # e # sfx) =
     (if e = CHR ''a'' then Inr (7, False, 2)
      else if e = CHR ''b'' then Inr (8, False, 2)
      else if e = CHR ''f'' then Inr (12, False, 2)
      else if e = CHR ''n'' then Inr (10, False, 2)
      else if e = CHR ''r'' then Inr (13, False, 2)
      else if e = CHR ''t'' then Inr (9, False, 2)
      else if e = CHR ''v'' then Inr (11, False, 2)
      else if e = CHR ''x'' \<or> e = CHR ''u'' \<or> e = CHR ''U'' then
        (let n = (if e = CHR ''x'' then 2 else if e = CHR ''u'' then 4 else 8)
         in if length sfx < n then Inl ErrSyntax
            else (case unhexAll 0 (take n sfx) of
                    None \<Rightarrow> Inl ErrSyntax
                  | Some v \<Rightarrow>
                      if e = CHR ''x'' then Inr (v, False, 2 + n)
                      else if \<not> ValidRune v then Inl ErrSyntax
                      else Inr (v, True, 2 + n)))
      else if 48 \<le> byte e \<and> byte e \<le> 55 then
        (if length sfx < 2 then Inl ErrSyntax
         else (case unoctAll (byte e - 48) (take 2 sfx) of
                 None \<Rightarrow> Inl ErrSyntax
               | Some v \<Rightarrow> if 255 < v then Inl ErrSyntax else Inr (v, False, 4)))
      else if e = chr_backslash then Inr (0x5C, False, 2)
      else if e = chr_dquote then Inr (0x22, False, 2)
      else Inl ErrSyntax)"
proof -
  have b: "chr_backslash \<noteq> chr_dquote" "\<not> RuneSelf \<le> byte chr_backslash"
    by (simp_all add: chr_dquote_def chr_backslash_def RuneSelf_def byte_def)
  show ?thesis
    unfolding UnquoteChar_def list.case if_not_P [OF b(1)] if_not_P [OF b(2)] by simp
qed

lemma UnquoteChar_escapes:
  "UnquoteChar (chr_backslash # CHR ''a'' # sfx) = Inr (7, False, 2)"
  "UnquoteChar (chr_backslash # CHR ''b'' # sfx) = Inr (8, False, 2)"
  "UnquoteChar (chr_backslash # CHR ''f'' # sfx) = Inr (12, False, 2)"
  "UnquoteChar (chr_backslash # CHR ''n'' # sfx) = Inr (10, False, 2)"
  "UnquoteChar (chr_backslash # CHR ''r'' # sfx) = Inr (13, False, 2)"
  "UnquoteChar (chr_backslash # CHR ''t'' # sfx) = Inr (9, False, 2)"
  "UnquoteChar (chr_backslash # CHR ''v'' # sfx) = Inr (11, False, 2)"
  by (simp_all add: UnquoteChar_backslash)

lemma UnquoteChar_escaped_backslash:
  "UnquoteChar (chr_backslash # chr_backslash # sfx) = Inr (0x5C, False, 2)"
proof -
  have "byte chr_backslash = 0x5C" by (simp add: byte_def chr_backslash_def)
  moreover have "chr_backslash \<notin> set ''abfnrtvxuU''" by (simp add: chr_backslash_def)
  ultimately show ?thesis by (simp add: UnquoteChar_backslash)
qed

lemma UnquoteChar_escaped_dquote:
  "UnquoteChar (chr_backslash # chr_dquote # sfx) = Inr (0x22, False, 2)"
proof -
  have "byte chr_dquote = 0x22" by (simp add: byte_def chr_dquote_def)
  moreover have "chr_dquote \<notin> set ''abfnrtvxuU''" by (simp add: chr_dquote_def)
  moreover have "chr_dquote \<noteq> chr_backslash" by (simp add: chr_dquote_def chr_backslash_def)
  ultimately show ?thesis by (simp add: UnquoteChar_backslash)
qed

lemma simple_escape_values:
  "byte chr_dquote = 0x22" "byte chr_backslash = 0x5C" "byte (CHR 0x07) = 7" "byte (CHR 0x08) = 8"
  "byte (CHR 0x0C) = 12" "byte (CHR 0x0A) = 10" "byte (CHR 0x0D) = 13" "byte (CHR 0x09) = 9"
  "byte (CHR 0x0B) = 11"
  by (simp_all add: byte_def chr_dquote_def chr_backslash_def)

lemma UnquoteChar_simple:
  assumes "simple_escape c e"
  shows "UnquoteChar (chr_backslash # e # sfx) = Inr (byte c, False, 2)"
  using assms unfolding simple_escape_def
  by (elim disjE conjE)
     (simp_all only: UnquoteChar_escapes UnquoteChar_escaped_backslash
        UnquoteChar_escaped_dquote simple_escape_values)

lemma UnquoteChar_hex:
  assumes "r < 16 ^ k" "(e = CHR ''x'' \<and> k = 2) \<or> (e = CHR ''u'' \<and> k = 4) \<or> (e = CHR ''U'' \<and> k = 8)"
  shows "UnquoteChar (chr_backslash # e # hexN k r @ sfx) =
    (if e = CHR ''x'' then Inr (r, False, 2 + k)
     else if \<not> ValidRune r then Inl ErrSyntax else Inr (r, True, 2 + k))"
proof -
  have u: "unhexAll 0 (hexN k r) = Some r" using assms(1) by (rule unhexAll_hexN_exact)
  have t: "take k (hexN k r @ sfx) = hexN k r" by simp
  have n: "(if e = CHR ''x'' then 2 else if e = CHR ''u'' then 4 else 8) = k"
    using assms(2) by auto
  have e: "e \<noteq> CHR ''a''" "e \<noteq> CHR ''b''" "e \<noteq> CHR ''f''" "e \<noteq> CHR ''n''" "e \<noteq> CHR ''r''"
    "e \<noteq> CHR ''t''" "e \<noteq> CHR ''v''" "e = CHR ''x'' \<or> e = CHR ''u'' \<or> e = CHR ''U''"
    using assms(2) by auto
  have l: "\<not> length (hexN k r @ sfx) < k" by simp
  show ?thesis
    unfolding UnquoteChar_backslash if_not_P [OF e(1)] if_not_P [OF e(2)] if_not_P [OF e(3)]
      if_not_P [OF e(4)] if_not_P [OF e(5)] if_not_P [OF e(6)] if_not_P [OF e(7)] if_P [OF e(8)]
      Let_def n if_not_P [OF l] t u
    by simp
qed

lemma multibyte_facts:
  assumes "multibyte r bs"
  shows "AppendRune r = bs" "RuneSelf \<le> r" "ValidRune r" "r < 16 ^ 8" "bs \<noteq> []"
    "hd bs \<noteq> chr_dquote" "hd bs \<noteq> chr_newline"
proof -
  show "AppendRune r = bs" "ValidRune r" using assms by (simp_all add: multibyte_def)
  show "RuneSelf \<le> r" using assms by (simp add: multibyte_def RuneSelf_def)
  have "r \<le> 0x10FFFF" using assms by (auto simp: multibyte_def ValidRune_def)
  then show "r < 16 ^ 8" by simp
  show "bs \<noteq> []" using assms by (auto simp: multibyte_def)
  then obtain c cs where bs: "bs = c # cs" by (cases bs) auto
  then have "0x80 \<le> byte c" using assms by (auto simp: multibyte_def)
  then show "hd bs \<noteq> chr_dquote" "hd bs \<noteq> chr_newline"
    using bs by (auto simp: chr_dquote_def chr_newline_def byte_def)
qed

lemma bs_facts:
  "chr_backslash \<noteq> chr_dquote" "chr_backslash \<noteq> chr_newline"
  by (simp_all add: chr_dquote_def chr_backslash_def chr_newline_def)

lemma chunk_unquoteLoop:
  "chunk bs esc \<Longrightarrow> unquoteLoop buf (esc @ sfx) = unquoteLoop (buf @ bs) sfx"
proof (induction rule: chunk.induct)
  case (raw_ascii c)
  then have "c \<noteq> chr_dquote" "c \<noteq> chr_newline" "byte c < RuneSelf"
    by (simp_all add: plain_def RuneSelf_def)
  then show ?case using raw_ascii by (simp add: UnquoteChar_plain)
next
  case (raw_rune r bs)
  note f = multibyte_facts [OF raw_rune]
  obtain c cs where bs: "bs = c # cs" using f(5) by (cases bs) auto
  have u: "UnquoteChar (c # cs @ sfx) = Inr (r, True, length bs)"
    using UnquoteChar_multibyte [OF raw_rune, of sfx] bs by simp
  show ?case
    using f(1,2,6,7) u unfolding bs by simp
next
  case (esc_simple c e)
  have "byte c < RuneSelf"
    using esc_simple by (auto simp: simple_escape_def RuneSelf_def byte_def chr_dquote_def chr_backslash_def)
  then show ?case
    using UnquoteChar_simple [OF esc_simple, of sfx] bs_facts by simp
next
  case (esc_x c)
  have r: "byte c < 16 ^ 2" by simp
  have u: "UnquoteChar (chr_backslash # CHR ''x'' # hexN 2 (byte c) @ sfx) = Inr (byte c, False, 4)"
    using UnquoteChar_hex [OF r, of "CHR ''x''" sfx] by simp
  have "drop 3 (CHR ''x'' # hexN 2 (byte c) @ sfx) = sfx"
    by (simp del: hexN.simps)
  then show ?case using u bs_facts by (simp del: hexN.simps)
next
  case (esc_u r bs)
  note f = multibyte_facts [OF esc_u(1)]
  have r: "r < 16 ^ 4" using esc_u(2) by simp
  have u: "UnquoteChar (chr_backslash # CHR ''u'' # hexN 4 r @ sfx) = Inr (r, True, 6)"
    using UnquoteChar_hex [OF r, of "CHR ''u''" sfx] f(3) by simp
  have "drop 5 (CHR ''u'' # hexN 4 r @ sfx) = sfx"
    by (simp del: hexN.simps)
  then show ?case using u bs_facts f(1,2) by (simp del: hexN.simps)
next
  case (esc_U r bs)
  note f = multibyte_facts [OF esc_U(1)]
  have u: "UnquoteChar (chr_backslash # CHR ''U'' # hexN 8 r @ sfx) = Inr (r, True, 10)"
    using UnquoteChar_hex [OF f(4), of "CHR ''U''" sfx] f(3) by simp
  have "drop 9 (CHR ''U'' # hexN 8 r @ sfx) = sfx"
    by (simp del: hexN.simps)
  then show ?case using u bs_facts f(1,2) by (simp del: hexN.simps)
qed

lemma encodes_unquoteLoop:
  "encodes s Q \<Longrightarrow> unquoteLoop buf (Q @ chr_dquote # rest) = Inr (buf @ s, rest)"
proof (induction arbitrary: buf rule: encodes.induct)
  case enc_Nil
  then show ?case by simp
next
  case (enc_Cons bs esc s Q)
  show ?case
    using chunk_unquoteLoop [OF enc_Cons.hyps(1), of buf "Q @ chr_dquote # rest"]
      enc_Cons.IH [of "buf @ bs"]
    by simp
qed

lemma chunk_ascii:
  assumes "byte c < 0x80"
  shows "chunk [c] (appendEscapedRune env (byte c))"
proof -
  let ?r = "byte c"
  consider (q) "?r = 0x22 \<or> ?r = 0x5C" | (p) "0x20 \<le> ?r" "?r \<le> 0x7E" "?r \<noteq> 0x22" "?r \<noteq> 0x5C"
    | (s) "?r \<in> {7, 8, 12, 10, 13, 9, 11}" | (x) "?r < 0x20 \<or> ?r = 0x7F" "?r \<notin> {7, 8, 12, 10, 13, 9, 11}"
    using assms by fastforce
  then show ?thesis
  proof cases
    case q
    then have "c = chr_dquote \<or> c = chr_backslash"
      by (metis byte_def char_of_byte char_of_nat_numeral(8,9) chr_backslash_def chr_dquote_def)
    then have "simple_escape c (char_of ?r)" by (auto simp: simple_escape_def)
    then show ?thesis using q by (auto simp: appendEscapedRune_def intro: chunk.esc_simple)
  next
    case p
    have "c \<noteq> chr_dquote" "c \<noteq> chr_backslash" "c \<noteq> chr_newline"
      using p by (auto simp: byte_def chr_dquote_def chr_backslash_def chr_newline_def)
    then have "plain c" using assms by (simp add: plain_def)
    moreover have "appendEscapedRune env ?r = [c]"
      using p assms by (simp add: appendEscapedRune_def IsPrint_def AppendRune_ascii)
    ultimately show ?thesis by (simp add: chunk.raw_ascii)
  next
    case s
    have np: "\<not> IsPrint env ?r" using s by (auto simp: IsPrint_def)
    have nq: "?r \<noteq> 0x22" "?r \<noteq> 0x5C" using s by auto
    from s have "\<exists>e. simple_escape c e \<and> appendEscapedRune env ?r = [chr_backslash, e]"
    proof -
      have cc: "c = char_of ?r" by simp
      from s consider "?r = 7" | "?r = 8" | "?r = 12" | "?r = 10" | "?r = 13" | "?r = 9" | "?r = 11"
        by auto
      then show ?thesis
      proof cases
        case 1
        then have "c = CHR 0x07" using cc char_of_nat_numeral(1) by metis
        then show ?thesis using 1 np by (simp add: simple_escape_def appendEscapedRune_def)
      next
        case 2
        then have "c = CHR 0x08" using cc char_of_nat_numeral(2) by metis
        then show ?thesis using 2 np by (simp add: simple_escape_def appendEscapedRune_def)
      next
        case 3
        then have "c = CHR 0x0C" using cc char_of_nat_numeral(3) by metis
        then show ?thesis using 3 np by (simp add: simple_escape_def appendEscapedRune_def)
      next
        case 4
        then have "c = CHR 0x0A" using cc char_of_nat_numeral(4) by metis
        then show ?thesis using 4 np by (simp add: simple_escape_def appendEscapedRune_def)
      next
        case 5
        then have "c = CHR 0x0D" using cc char_of_nat_numeral(5) by metis
        then show ?thesis using 5 np by (simp add: simple_escape_def appendEscapedRune_def)
      next
        case 6
        then have "c = CHR 0x09" using cc char_of_nat_numeral(6) by metis
        then show ?thesis using 6 np by (simp add: simple_escape_def appendEscapedRune_def)
      next
        case 7
        then have "c = CHR 0x0B" using cc char_of_nat_numeral(7) by metis
        then show ?thesis using 7 np by (simp add: simple_escape_def appendEscapedRune_def)
      qed
    qed
    then show ?thesis by (auto intro: chunk.esc_simple)
  next
    case x
    have np: "\<not> IsPrint env ?r" using x assms by (auto simp: IsPrint_def)
    have "appendEscapedRune env ?r = [chr_backslash, CHR ''x''] @ hexN 2 ?r"
      using x np unfolding appendEscapedRune_def by auto
    then show ?thesis using chunk.esc_x [of c] by simp
  qed
qed

lemma chunk_multibyte:
  assumes "multibyte r bs"
  shows "chunk bs (appendEscapedRune env r)"
proof -
  note f = multibyte_facts [OF assms]
  have r: "0x80 \<le> r" using f(2) by (simp add: RuneSelf_def)
  show ?thesis
  proof (cases "IsPrint env r")
    case True
    then have "appendEscapedRune env r = bs" using r f(1) by (simp add: appendEscapedRune_def)
    then show ?thesis using chunk.raw_rune [OF assms] by simp
  next
    case False
    show ?thesis
    proof (cases "r < 0x10000")
      case True
      then have "appendEscapedRune env r = [chr_backslash, CHR ''u''] @ hexN 4 r"
        using r f(3) False unfolding appendEscapedRune_def by simp
      then show ?thesis using chunk.esc_u [OF assms True] by simp
    next
      case nw: False
      then have "appendEscapedRune env r = [chr_backslash, CHR ''U''] @ hexN 8 r"
        using r f(3) False unfolding appendEscapedRune_def by simp
      then show ?thesis using chunk.esc_U [OF assms] by simp
    qed
  qed
qed

lemma encodes_quoteLoop: "encodes s (quoteLoop env s)"
proof (induction s rule: length_induct)
  case (1 s)
  show ?case
  proof (cases s)
    case Nil
    then show ?thesis by (simp add: encodes.enc_Nil)
  next
    case (Cons c cs)
    show ?thesis
    proof (cases "byte c < 0x80")
      case True
      have ih: "encodes cs (quoteLoop env cs)" using 1 Cons by simp
      have "quoteLoop env (c # cs) = appendEscapedRune env (byte c) @ quoteLoop env cs"
        using True by (simp add: RuneSelf_def RuneError_def)
      then show ?thesis
        using encodes.enc_Cons [OF chunk_ascii [OF True, of env] ih] Cons by simp
    next
      case False
      then have hi: "0x80 \<le> byte c" by simp
      from decode_cases [OF hi, of cs] show ?thesis
      proof
        assume d: "DecodeRuneInString (c # cs) = (RuneError, 1)"
        have ih: "encodes cs (quoteLoop env cs)" using 1 Cons by simp
        have "quoteLoop env (c # cs) = ([chr_backslash, CHR ''x''] @ hexN 2 (byte c)) @ quoteLoop env cs"
          using hi d by (simp add: RuneSelf_def del: hexN.simps)
        then show ?thesis
          using encodes.enc_Cons [OF chunk.esc_x [of c] ih] Cons by simp
      next
        assume "\<exists>r bs rest. c # cs = bs @ rest \<and> multibyte r bs
           \<and> DecodeRuneInString (c # cs) = (r, length bs)"
        then obtain r bs rest where e: "c # cs = bs @ rest" and m: "multibyte r bs"
          and d: "DecodeRuneInString (c # cs) = (r, length bs)"
          by blast
        have len: "2 \<le> length bs" using m by (simp add: multibyte_def)
        then have rest: "drop (length bs - 1) cs = rest"
          using e by (cases bs) auto
        have "length s = length bs + length rest"
          using arg_cong [OF e, of length] Cons by simp
        then have "length rest < length s" using len by linarith
        then have ih: "encodes rest (quoteLoop env rest)" using 1 by simp
        have "quoteLoop env (c # cs) = appendEscapedRune env r @ quoteLoop env rest"
          using hi d len rest by (simp add: RuneSelf_def)
        then show ?thesis
          using encodes.enc_Cons [OF chunk_multibyte [OF m, of env] ih] Cons e by simp
      qed
    qed
  qed
qed

lemma Unquote_Quote: "Unquote (Quote env s) = Inr s"
proof -
  let ?Q = "quoteLoop env s"
  let ?cs = "?Q @ [chr_dquote]"
  let ?body = "takeWhile (\<lambda>c. c \<noteq> chr_dquote) ?cs"
  have e: "encodes s ?Q" by (rule encodes_quoteLoop)
  have slow: "unquoteLoop [] ?cs = Inr (s, [])"
    using encodes_unquoteLoop [OF e, of "[]" "[]"] by simp
  have u: "Unquote (chr_dquote # ?cs) =
      (if chr_backslash \<notin> set ?body \<and> chr_newline \<notin> set ?body \<and> ValidString ?body
       then (if drop (length ?body + 1) ?cs = [] then Inr ?body else Inl ErrSyntax)
       else Inr s)"
    unfolding Unquote_def by (simp add: slow Let_def)
  show ?thesis
  proof (cases "chr_backslash \<notin> set ?body \<and> chr_newline \<notin> set ?body \<and> ValidString ?body")
    case False
    have "Unquote (chr_dquote # ?cs) = Inr s"
      unfolding u by (rule if_not_P [OF False])
    then show ?thesis by (simp add: Quote_def)
  next
    case True
    then have "chr_backslash \<notin> set ?body" by simp
    then have "?Q = s \<and> chr_dquote \<notin> set ?Q" by (rule encodes_fast [OF e])
    then have q: "?Q = s" "chr_dquote \<notin> set ?Q" by blast+
    have "\<And>x. x \<in> set ?Q \<Longrightarrow> x \<noteq> chr_dquote" using q(2) by blast
    then have b: "?body = ?Q" by simp
    have "Unquote (chr_dquote # ?cs) =
        (if drop (length ?body + 1) ?cs = [] then Inr ?body else Inl ErrSyntax)"
      unfolding u by (rule if_P [OF True])
    also have "\<dots> = Inr ?body" unfolding b by simp
    finally have "Unquote (chr_dquote # ?cs) = Inr ?body" .
    then show ?thesis using b q(1) by (simp add: Quote_def)
  qed
qed

lemma quotedString_Quote: "quotedString (Quote env s @ rest) = Inr (s, rest)"
proof -
  have e: "encodes s (quoteLoop env s)" by (rule encodes_quoteLoop)
  have d: "doublequoted [chr_dquote] (quoteLoop env s @ chr_dquote # rest)
      = Inr (chr_dquote # quoteLoop env s @ [chr_dquote], rest)"
    using encodes_doublequoted [OF e, of "[chr_dquote]" rest] by simp
  have ne: "chr_dquote \<noteq> chr_backquote" by (simp add: chr_dquote_def chr_backquote_def)
  show ?thesis
    using Unquote_Quote [of env s] d ne by (simp add: quotedString_def Quote_def)
qed

lemma convertString_Quote:
  "convertString (CHR ''q'') (Quote env s @ rest) = Inr (s, rest)"
proof -
  have "byte chr_dquote < 0x80" "\<not> IsSpace (byte chr_dquote)"
    by (simp_all add: byte_def chr_dquote_def IsSpace_def)
  then have sk: "SkipSpace (chr_dquote # t) = Inr (chr_dquote # t)" for t
    by (rule SkipSpace_nonspace)
  have q: "Quote env s @ rest = chr_dquote # (quoteLoop env s @ [chr_dquote]) @ rest"
    by (simp add: Quote_def)
  show ?thesis
    unfolding convertString_def q sk using quotedString_Quote [of env s rest]
    by (simp add: Quote_def)
qed

section \<open>Scan on the text of String\<close>

text \<open>
  \<^verbatim>\<open>doScanf\<close> step by step on a text made of the fields and the bars between them.
\<close>

lemma SkipSpace_formatNat: "SkipSpace (formatNat n @ rest) = Inr (formatNat n @ rest)"
proof -
  obtain d ds where f: "formatNat n = digitChar d # ds" "d < 10" using hd_formatNat by blast
  have "SkipSpace (digitChar d # ds @ rest) = Inr (digitChar d # ds @ rest)"
    using f(2) by (intro SkipSpace_nonspace digitChar_props)
  then show ?thesis by (simp add: f(1))
qed

lemma SkipSpace_formatInt: "SkipSpace (formatInt i @ rest) = Inr (formatInt i @ rest)"
proof (cases "i < 0")
  case True
  have "SkipSpace (CHR ''-'' # formatNat (nat (- i)) @ rest)
      = Inr (CHR ''-'' # formatNat (nat (- i)) @ rest)"
    by (intro SkipSpace_nonspace) (simp_all add: byte_def IsSpace_def)
  then show ?thesis using True by (simp add: formatInt_def)
next
  case False
  then show ?thesis using SkipSpace_formatNat by (simp add: formatInt_def)
qed

lemma SkipSpace_bool:
  "SkipSpace ((if b then ''true'' else ''false'') @ rest) = Inr ((if b then ''true'' else ''false'') @ rest)"
  by (simp add: DecodeRuneInString_def byte_def IsSpace_def Let_def)

lemma SkipSpace_Quote: "SkipSpace (Quote env s @ rest) = Inr (Quote env s @ rest)"
proof -
  have "SkipSpace (chr_dquote # quoteLoop env s @ chr_dquote # rest)
      = Inr (chr_dquote # quoteLoop env s @ chr_dquote # rest)"
    by (intro SkipSpace_nonspace) (simp_all add: byte_def IsSpace_def chr_dquote_def)
  then show ?thesis by (simp add: Quote_def)
qed

lemma verb_d: "CHR ''d'' \<noteq> CHR ''%''" "\<not> isDigit (CHR ''d'')" "\<not> RuneSelf \<le> byte (CHR ''d'')"
  "CHR ''d'' \<noteq> CHR ''c''"
  by (simp_all add: isDigit_def RuneSelf_def byte_def)

lemma verb_t: "CHR ''t'' \<noteq> CHR ''%''" "\<not> isDigit (CHR ''t'')" "\<not> RuneSelf \<le> byte (CHR ''t'')"
  "CHR ''t'' \<noteq> CHR ''c''"
  by (simp_all add: isDigit_def RuneSelf_def byte_def)

lemma verb_q: "CHR ''q'' \<noteq> CHR ''%''" "\<not> isDigit (CHR ''q'')" "\<not> RuneSelf \<le> byte (CHR ''q'')"
  "CHR ''q'' \<noteq> CHR ''c''"
  by (simp_all add: isDigit_def RuneSelf_def byte_def)

lemma doScanf_bar:
  "doScanf (CHR ''|'' # f # fs) a (CHR ''|'' # cs) st = doScanf (f # fs) a cs st"
  by (simp add: IsSpace_def byte_def RuneSelf_def)

lemma doScanf_last_bar: "doScanf [CHR ''|''] [] (CHR ''|'' # cs) st = (st, None)"
  by (simp add: IsSpace_def byte_def RuneSelf_def)

lemma doScanf_int:
  fixes w :: go_int
  shows "doScanf (CHR ''%'' # CHR ''d'' # fs) (PInt put # args)
           (formatInt (sint w) @ CHR ''|'' # rest) st
         = doScanf fs args (CHR ''|'' # rest) (put w st)"
  by (simp add: verb_d SkipSpace_formatInt scanInt_formatInt del: SkipSpace.simps)

lemma doScanf_uint:
  fixes w :: go_uint
  shows "doScanf (CHR ''%'' # CHR ''d'' # fs) (PUint put # args)
           (formatNat (unat w) @ CHR ''|'' # rest) st
         = doScanf fs args (CHR ''|'' # rest) (put w st)"
proof -
  have "unat w < 2 ^ 64" using unsigned_less [of w] by simp
  then have "scanUint (CHR ''d'') 64 (formatNat (unat w) @ CHR ''|'' # rest)
      = Inr (unat w, CHR ''|'' # rest)"
    by (rule scanUint_formatNat) simp
  then show ?thesis
    by (simp add: verb_d SkipSpace_formatNat del: SkipSpace.simps)
qed

lemma doScanf_uint8:
  fixes w :: go_uint8
  shows "doScanf (CHR ''%'' # CHR ''d'' # fs) (PUint8 put # args)
           (formatNat (unat w) @ CHR ''|'' # rest) st
         = doScanf fs args (CHR ''|'' # rest) (put w st)"
proof -
  have "unat w < 2 ^ 8" using unsigned_less [of w] by simp
  then have "scanUint (CHR ''d'') 8 (formatNat (unat w) @ CHR ''|'' # rest)
      = Inr (unat w, CHR ''|'' # rest)"
    by (rule scanUint_formatNat) simp
  then show ?thesis
    by (simp add: verb_d SkipSpace_formatNat del: SkipSpace.simps)
qed

lemma doScanf_bool:
  "doScanf (CHR ''%'' # CHR ''t'' # fs) (PBool put # args)
     ((if b then ''true'' else ''false'') @ CHR ''|'' # rest) st
   = doScanf fs args (CHR ''|'' # rest) (put b st)"
proof (cases b)
  case True
  have "SkipSpace (''true'' @ CHR ''|'' # rest) = Inr (''true'' @ CHR ''|'' # rest)"
    using SkipSpace_bool [of True] by simp
  then show ?thesis
    using True scanBool_true [of rest] verb_t by (simp del: SkipSpace.simps)
next
  case False
  have "SkipSpace (''false'' @ CHR ''|'' # rest) = Inr (''false'' @ CHR ''|'' # rest)"
    using SkipSpace_bool [of False] by simp
  then show ?thesis
    using False scanBool_false [of rest] verb_t by (simp del: SkipSpace.simps)
qed

lemma doScanf_string:
  "doScanf (CHR ''%'' # CHR ''q'' # fs) (PString put # args) (Quote env s @ rest) st
   = doScanf fs args rest (put s st)"
  by (simp add: verb_q SkipSpace_Quote convertString_Quote del: SkipSpace.simps)

lemma String_eq:
  "String env qo =
     CHR ''|'' # formatInt (sint (ID qo)) @ CHR ''|'' #
     (if Descending qo then ''true'' else ''false'') @ CHR ''|'' #
     Quote env (Entity qo) @ CHR ''|'' #
     formatNat (unat (GuiLang qo)) @ CHR ''|'' #
     formatNat (unat (Layout qo)) @ CHR ''|'' #
     formatNat (unat (LimitLength qo)) @ CHR ''|'' #
     formatNat (unat (LimitStart qo)) @ CHR ''|'' #
     Quote env (Matching qo) @ CHR ''|'' #
     formatNat (unat (QueryCount qo)) @ CHR ''|'' #
     formatNat (unat (SortBy qo)) @ CHR ''|'' #
     formatNat (unat (Theme qo)) @ CHR ''|'' #
     Quote env (VirtLib qo) @ ''|''"
  by (simp add: String_def Sprintf_def qoStringPattern_def extraArgs_def)

lemma doScanf_front:
  "doScanf qoStringPattern scan_pointers
     (CHR ''|'' # formatInt (sint i) @ CHR ''|'' #
      (if d then ''true'' else ''false'') @ CHR ''|'' #
      Quote env e @ CHR ''|'' #
      formatNat (unat g) @ CHR ''|'' #
      formatNat (unat l) @ CHR ''|'' #
      formatNat (unat ll) @ CHR ''|'' #
      formatNat (unat ls) @ CHR ''|'' #
      Quote env m @ CHR ''|'' #
      formatNat (unat qc) @ CHR ''|'' #
      formatNat (unat sb) @ CHR ''|'' #
      formatNat (unat th) @ CHR ''|'' # rest) (q0, m0, v0)
   = doScanf ''%q|'' [PString (\<lambda>x (qo, m, v). (qo, m, x))] rest
       (q0\<lparr>ID := i, Descending := d, Entity := e, GuiLang := g, Layout := l,
           LimitLength := ll, LimitStart := ls, QueryCount := qc, SortBy := sb,
           Theme := th\<rparr>, m, v0)"
  unfolding qoStringPattern_def scan_pointers_def
  by (simp only: doScanf_bar doScanf_int doScanf_uint doScanf_uint8 doScanf_bool
      doScanf_string prod.case)

lemma doScanf_String:
  "doScanf qoStringPattern scan_pointers (String env qo) (q0, [], []) =
     ((qo\<lparr>Matching := Matching q0, VirtLib := VirtLib q0\<rparr>, Matching qo, VirtLib qo), None)"
proof -
  have r: "q0\<lparr>ID := ID qo, Descending := Descending qo, Entity := Entity qo,
        GuiLang := GuiLang qo, Layout := Layout qo, LimitLength := LimitLength qo,
        LimitStart := LimitStart qo, QueryCount := QueryCount qo, SortBy := SortBy qo,
        Theme := Theme qo\<rparr> = qo\<lparr>Matching := Matching q0, VirtLib := VirtLib q0\<rparr>"
    by (cases q0; cases qo) simp
  show ?thesis
    unfolding String_eq doScanf_front r
    by (simp only: doScanf_string doScanf_last_bar prod.case)
qed

lemma Scan_String:
  "Scan q0 (String env qo) =
     qo\<lparr>Matching := TrimSpace (Matching qo),
        VirtLib := (if VirtLib qo = ''-'' then [] else TrimSpace (VirtLib qo))\<rparr>"
  unfolding Scan_def Sscanf_def doScanf_String by (simp add: eq_commute)

lemma Quote_empty: "Quote env [] = [chr_dquote, chr_dquote]"
  by (simp add: Quote_def)

lemma Quote_minus: "Quote env ''-'' = chr_dquote # ''-'' @ [chr_dquote]"
  by (simp add: Quote_def DecodeRuneInString_def byte_def appendEscapedRune_def IsPrint_def
      chr_dquote_def chr_backslash_def RuneError_def RuneSelf_def Let_def AppendRune_def
      char_of_eq_iff take_bit_eq_mod)

lemma doScanf_bare_minus:
  "doScanf ''%q|'' [PString put] ''-|'' st = (st, Some (ErrScan ''expected quoted string''))"
  by (simp add: convertString_def quotedString_def DecodeRuneInString_def byte_def
      IsSpace_def chr_dquote_def chr_backquote_def Let_def RuneSelf_def isDigit_def)

lemma Scan_bare_minus:
  fixes i :: go_int and g l sb th :: go_uint8 and ll ls qc :: go_uint
  shows "VirtLib (Scan start
     (CHR ''|'' # formatInt (sint i) @ CHR ''|'' #
      (if d then ''true'' else ''false'') @ CHR ''|'' #
      Quote env e @ CHR ''|'' #
      formatNat (unat g) @ CHR ''|'' #
      formatNat (unat l) @ CHR ''|'' #
      formatNat (unat ll) @ CHR ''|'' #
      formatNat (unat ls) @ CHR ''|'' #
      Quote env m @ CHR ''|'' #
      formatNat (unat qc) @ CHR ''|'' #
      formatNat (unat sb) @ CHR ''|'' #
      formatNat (unat th) @ CHR ''|'' # ''-|'')) = []"
  unfolding Scan_def Sscanf_def doScanf_front doScanf_bare_minus by simp

lemma formatNat_24: "formatNat 24 = ''24''"
  by (subst formatNat.simps, subst formatNat.simps) (simp add: digitChar_def)


section \<open>The round trip\<close>

text \<open>
  C1 (as amended). For every options value \<open>qo\<close>, whatever value \<open>start\<close> the scan writes
  into and whatever the environment, \<open>Scan\<close> on the text of \<open>String qo\<close> gives \<open>qo\<close>
  with Matching and VirtLib passed through \<^verbatim>\<open>strings.TrimSpace\<close>, and with a VirtLib
  that is exactly \<^verbatim>\<open>-\<close> made empty; every other field comes back as it was. So the round
  trip gives back \<open>qo\<close> exactly if and only if Matching and VirtLib have no white space at
  either end and VirtLib is not \<^verbatim>\<open>-\<close>. An empty VirtLib comes back empty.
\<close>

theorem scan_string_round_trip:
  "Scan start (String env qo) =
     qo\<lparr>Matching := TrimSpace (Matching qo),
        VirtLib := (if VirtLib qo = ''-'' then [] else TrimSpace (VirtLib qo))\<rparr>
   \<and> (Scan start (String env qo) = qo \<longleftrightarrow>
        TrimSpace (Matching qo) = Matching qo \<and> TrimSpace (VirtLib qo) = VirtLib qo
        \<and> VirtLib qo \<noteq> ''-'')"
proof -
  have "(qo\<lparr>Matching := a, VirtLib := b\<rparr> = qo) = (a = Matching qo \<and> b = VirtLib qo)" for a b
    by (cases qo) auto
  then show ?thesis unfolding Scan_String by auto
qed


text \<open>
  The round trip at the options of the second page of an author listing, scanned into
  other options.
\<close>

theorem scan_string_round_trip_witness:
  "Scan (Update None req_empty qo_author_page2) (String env_int qo_author_page2) = qo_author_page2"
  using scan_string_round_trip [where start = "Update None req_empty qo_author_page2"
      and env = env_int and qo = qo_author_page2]
  by (simp add: qo_author_page2_def)


text \<open>
  The claim as the specification words it fails for a value that Update produces: the
  form value ``matching'' is stored as it comes, so a request whose search text is a
  blank and \<^verbatim>\<open>a\<close> leaves Matching with the blank, and after String and Scan Matching is
  \<^verbatim>\<open>a\<close> alone.
\<close>

theorem round_trip_padded_matching_counterexample:
  "Matching (Update None req_matching_padded qo_author_page2) = '' a''
   \<and> Matching (Scan qo_author_page2
        (String env_int (Update None req_matching_padded qo_author_page2))) = ''a''
   \<and> Scan qo_author_page2 (String env_int (Update None req_matching_padded qo_author_page2))
       \<noteq> Update None req_matching_padded qo_author_page2"
proof -
  have m: "Matching (Update None req_matching_padded qo_author_page2) = '' a''"
    by (simp add: upd_defs req_matching_padded_def qo_author_page2_def)
  have t: "TrimSpace '' a'' = ''a''"
    by (simp add: RuneSelf_def byte_def asciiSpace_def)
  have s: "Matching (Scan qo_author_page2
        (String env_int (Update None req_matching_padded qo_author_page2))) = ''a''"
  proof -
    have "Matching (Scan qo_author_page2
        (String env_int (Update None req_matching_padded qo_author_page2)))
        = TrimSpace (Matching (Update None req_matching_padded qo_author_page2))"
      unfolding Scan_String by simp
    also have "\<dots> = TrimSpace '' a''" by (simp only: m)
    also have "\<dots> = ''a''" by (rule t)
    finally show ?thesis .
  qed
  have "Matching (Scan qo_author_page2
        (String env_int (Update None req_matching_padded qo_author_page2)))
      \<noteq> Matching (Update None req_matching_padded qo_author_page2)"
    unfolding s m by simp
  then have "Scan qo_author_page2
        (String env_int (Update None req_matching_padded qo_author_page2))
      \<noteq> Update None req_matching_padded qo_author_page2"
    by metis
  with m s show ?thesis by blast
qed


section \<open>The virtual library in the text\<close>

text \<open>
  C9 (as amended). \<open>String\<close> writes VirtLib with \<^verbatim>\<open>%q\<close> as the last field: the text is a
  front that does not depend on VirtLib, the quoted VirtLib and a bar. An empty VirtLib
  is written as two double quotes, not as \<^verbatim>\<open>-\<close>. \<open>Scan\<close> reads as the empty VirtLib the
  two double quotes, the quoted \<^verbatim>\<open>-\<close>, and also a bare \<^verbatim>\<open>-\<close> in that place (which
  \<^verbatim>\<open>%q\<close> refuses, so that the variable keeps its empty value).
\<close>

theorem virtlib_encoding:
  "\<exists>front. (\<forall>v. String env (qo\<lparr>VirtLib := v\<rparr>) = front @ Quote env v @ ''|'')
     \<and> Quote env [] = [chr_dquote, chr_dquote]
     \<and> VirtLib (Scan start (front @ [chr_dquote, chr_dquote] @ ''|'')) = []
     \<and> VirtLib (Scan start (front @ [chr_dquote] @ ''-'' @ [chr_dquote] @ ''|'')) = []
     \<and> VirtLib (Scan start (front @ ''-|'')) = []"
proof -
  define front where "front =
     CHR ''|'' # formatInt (sint (ID qo)) @ CHR ''|'' #
     (if Descending qo then ''true'' else ''false'') @ CHR ''|'' #
     Quote env (Entity qo) @ CHR ''|'' #
     formatNat (unat (GuiLang qo)) @ CHR ''|'' #
     formatNat (unat (Layout qo)) @ CHR ''|'' #
     formatNat (unat (LimitLength qo)) @ CHR ''|'' #
     formatNat (unat (LimitStart qo)) @ CHR ''|'' #
     Quote env (Matching qo) @ CHR ''|'' #
     formatNat (unat (QueryCount qo)) @ CHR ''|'' #
     formatNat (unat (SortBy qo)) @ CHR ''|'' #
     formatNat (unat (Theme qo)) @ ''|''"
  have s: "String env (qo\<lparr>VirtLib := v\<rparr>) = front @ Quote env v @ ''|''" for v
    unfolding String_eq front_def by simp
  have a: "VirtLib (Scan start (front @ [chr_dquote, chr_dquote] @ ''|'')) = []"
    using Scan_String [of start env "qo\<lparr>VirtLib := []\<rparr>"] s [of "[]"]
    by (simp add: Quote_empty)
  have b: "VirtLib (Scan start (front @ [chr_dquote] @ ''-'' @ [chr_dquote] @ ''|'')) = []"
    using Scan_String [of start env "qo\<lparr>VirtLib := ''-''\<rparr>"] s [of "''-''"]
    by (simp add: Quote_minus)
  have "front @ ''-|'' =
     CHR ''|'' # formatInt (sint (ID qo)) @ CHR ''|'' #
     (if Descending qo then ''true'' else ''false'') @ CHR ''|'' #
     Quote env (Entity qo) @ CHR ''|'' #
     formatNat (unat (GuiLang qo)) @ CHR ''|'' #
     formatNat (unat (Layout qo)) @ CHR ''|'' #
     formatNat (unat (LimitLength qo)) @ CHR ''|'' #
     formatNat (unat (LimitStart qo)) @ CHR ''|'' #
     Quote env (Matching qo) @ CHR ''|'' #
     formatNat (unat (QueryCount qo)) @ CHR ''|'' #
     formatNat (unat (SortBy qo)) @ CHR ''|'' #
     formatNat (unat (Theme qo)) @ CHR ''|'' # ''-|''"
    unfolding front_def by simp
  then have c: "VirtLib (Scan start (front @ ''-|'')) = []"
    using Scan_bare_minus by simp
  from s a b c Quote_empty show ?thesis by blast
qed


text \<open>The same at the options of the second page of an author listing.\<close>

theorem virtlib_encoding_witness:
  "\<exists>front. (\<forall>v. String env_int (qo_author_page2\<lparr>VirtLib := v\<rparr>) = front @ Quote env_int v @ ''|'')
     \<and> Quote env_int [] = [chr_dquote, chr_dquote]
     \<and> VirtLib (Scan qo_author_page2 (front @ [chr_dquote, chr_dquote] @ ''|'')) = []
     \<and> VirtLib (Scan qo_author_page2 (front @ [chr_dquote] @ ''-'' @ [chr_dquote] @ ''|'')) = []
     \<and> VirtLib (Scan qo_author_page2 (front @ ''-|'')) = []"
  by (rule virtlib_encoding [where env = env_int and qo = qo_author_page2 and start = qo_author_page2])


text \<open>
  The claim as the specification words it fails: options with an empty VirtLib are
  written with two double quotes in the last field, and the character \<^verbatim>\<open>-\<close> occurs
  nowhere in the text.
\<close>

theorem virtlib_empty_counterexample:
  "VirtLib qo_author_page2 = []
   \<and> String env_int qo_author_page2 =
       ''|5|false|'' @ [chr_dquote] @ ''author'' @ [chr_dquote] @ ''|0|0|24|24|''
       @ [chr_dquote, chr_dquote] @ ''|0|1|0|'' @ [chr_dquote, chr_dquote] @ ''|''
   \<and> CHR ''-'' \<notin> set (String env_int qo_author_page2)"
proof -
  have q: "Quote env_int ''author'' = [chr_dquote] @ ''author'' @ [chr_dquote]"
    by (simp add: Quote_def DecodeRuneInString_def byte_def appendEscapedRune_def IsPrint_def
      chr_dquote_def chr_backslash_def RuneError_def RuneSelf_def Let_def AppendRune_def
      char_of_eq_iff take_bit_eq_mod)
  have s: "String env_int qo_author_page2 =
       ''|5|false|'' @ [chr_dquote] @ ''author'' @ [chr_dquote] @ ''|0|0|24|24|''
       @ [chr_dquote, chr_dquote] @ ''|0|1|0|'' @ [chr_dquote, chr_dquote] @ ''|''"
    unfolding String_eq
    by (simp add: qo_author_page2_def formatInt_def formatNat_digit formatNat_24 q Quote_empty
        digitChar_def)
  show ?thesis unfolding s by (simp add: qo_author_page2_def chr_dquote_def)
qed

end
